theory Spec2Isabelle
  imports Main "HOL-Library.Word" "HOL-Library.Sublist"
begin

unbundle bit_operations_syntax

section \<open>Data model of CSV\_test\_SOMANET\_v42.c\<close>

text \<open>
  The program is a fieldbus master for one SOMANET servo drive. Two threads share a few
  globals: \<open>simpletest\<close> (start-up, wait for the operational state, 10000 process-data
  cycles with the drive power-state machine) and \<open>ecatcheck\<close> (the supervisor that
  recovers devices). The model is a shallow embedding with explicit state passing: a
  record of the globals, and one HOL function per block of the C source.

  The fieldbus stack (\<open>ec_init\<close>, \<open>ec_readstate\<close>, \<open>ec_receive_processdata\<close>, ...) is
  an external library. Each of its calls is modelled by what the program can observe of
  it: the value it returns and the fields of the stack's tables it refreshes, both taken
  from an environment record, so every theorem holds for every behaviour of the stack.
  Each thread is modelled on its own, as a sequential function of the state it finds;
  the interleaving of the two threads and the timing of the sleeps are not modelled.
\<close>

subsection \<open>Process images\<close>

text \<open>\<open>in_somanet_42t\<close>: the packed input image, field by field (\<open>int16\<close>, \<open>int8\<close>, \<open>int32\<close>).\<close>

record in_somanet_42t =
  Statusword :: "16 word"
  OpModeDisplay :: "8 word"
  PositionValue :: "32 word"
  VelocityValue :: "32 word"
  TorqueValue :: "16 word"
  SecPositionValue :: "32 word"
  SecVelocityValue :: "32 word"
  AnalogInput1 :: "16 word"
  AnalogInput2 :: "16 word"
  AnalogInput3 :: "16 word"
  AnalogInput4 :: "16 word"
  TuningStatus :: "32 word"
  DigitalInput1 :: "8 word"
  DigitalInput2 :: "8 word"
  DigitalInput3 :: "8 word"
  DigitalInput4 :: "8 word"
  UserMISO :: "32 word"
  Timestamp :: "32 word"
  PositionDemandInternalValue :: "32 word"
  VelocityDemandValue :: "32 word"
  TorqueDemand :: "16 word"

text \<open>\<open>out_somanet_42t\<close>: the packed output image (the command buffer).\<close>

record out_somanet_42t =
  Controlword :: "16 word"
  OpMode :: "8 word"
  TargetTorque :: "16 word"
  TargetPosition :: "32 word"
  TargetVelocity :: "32 word"
  TorqueOffset :: "16 word"
  TuningCommand :: "32 word"
  DigitalOutput1 :: "8 word"
  DigitalOutput2 :: "8 word"
  DigitalOutput3 :: "8 word"
  DigitalOutput4 :: "8 word"
  UserMOSI :: "32 word"
  VelocityOffset :: "32 word"

subsection \<open>The stack's tables\<close>

text \<open>
  Modelled from the spec: the device record and the group status of the stack, whose
  declarations (\<open>ec_slavet\<close> and \<open>ec_groupt\<close> of the header \<open>ethercat.h\<close>) are not
  among the sources. Only the fields the program reads or writes are kept: \<open>state\<close>
  and \<open>ALstatuscode\<close> are \<open>uint16\<close>, \<open>group\<close> is \<open>uint8\<close>, \<open>islost\<close> and
  \<open>docheckstate\<close> are \<open>boolean\<close>, the two working-counter counts are \<open>uint16\<close>.
\<close>

record ec_slavet =
  state :: "16 word"
  ALstatuscode :: "16 word"
  group :: "8 word"
  islost :: bool

record ec_groupt =
  outputsWKC :: "16 word"
  inputsWKC :: "16 word"
  docheckstate :: bool

text \<open>
  Modelled from the spec: the link states none, init, safe-operational and operational
  and the error and acknowledge flags, constants of the header \<open>ethercat.h\<close>, which is
  not among the sources. The values are those of the EtherCAT application-layer state
  register, with none the least; \<open>EC_STATE_ACK\<close> and \<open>EC_STATE_ERROR\<close> are the same
  bit.
\<close>

definition EC_STATE_NONE :: "16 word" where "EC_STATE_NONE = 0x00"
definition EC_STATE_INIT :: "16 word" where "EC_STATE_INIT = 0x01"
definition EC_STATE_SAFE_OP :: "16 word" where "EC_STATE_SAFE_OP = 0x04"
definition EC_STATE_OPERATIONAL :: "16 word" where "EC_STATE_OPERATIONAL = 0x08"
definition EC_STATE_ACK :: "16 word" where "EC_STATE_ACK = 0x10"
definition EC_STATE_ERROR :: "16 word" where "EC_STATE_ERROR = 0x10"

text \<open>\<open>#define EC_TIMEOUTMON 500\<close> and \<open>uint8 currentgroup = 0\<close> (never assigned again).\<close>

definition EC_TIMEOUTMON :: nat where "EC_TIMEOUTMON = 500"
definition currentgroup :: "8 word" where "currentgroup = 0"

subsection \<open>Observable events\<close>

text \<open>One constructor per \<open>printf\<close> of the source, with the values it prints.\<close>

datatype msg =
    M_Starting_simple_test
  | M_ec_init_succeeded
  | M_slaves_found nat
  | M_Slaves_mapped
  | M_segments
  | M_Request_operational
  | M_Calculated_workcounter int
  | M_Operational_reached
  | M_Processdata_cycle nat int
  | M_Statusword "16 word"
  | M_Op_Mode_Display "8 word"
  | M_ActualPos "32 word"
  | M_ActualVel "32 word"
  | M_DemandVel "32 word"
  | M_T "64 word"
  | M_Not_all_operational
  | M_Slave_State nat "16 word" "16 word"
  | M_Request_init
  | M_No_slaves_found
  | M_End_simple_test
  | M_No_socket
  | M_newline
  | M_ERROR_attempting_ack nat
  | M_WARNING_change_to_OPERATIONAL nat
  | M_MESSAGE_reconfigured nat
  | M_ERROR_lost nat
  | M_MESSAGE_recovered nat
  | M_MESSAGE_found nat
  | M_OK_all_resumed

text \<open>
  The trace records, in program order, every call into the stack, every \<open>printf\<close> and
  every store into the output image. \<open>Ec_writestate k q\<close> is \<open>ec_writestate(k)\<close> called
  while \<open>ec_slave[k].state\<close> holds \<open>q\<close>, the state it requests. Timeouts of the stack's
  header are not recorded.
\<close>

datatype event =
    Ec_init
  | Ec_config_init
  | Ec_config_map
  | Ec_configdc
  | Ec_statecheck nat "16 word"
  | Ec_send_processdata
  | Ec_receive_processdata
  | Ec_writestate nat "16 word"
  | Ec_readstate
  | Ec_reconfig_slave nat nat
  | Ec_recover_slave nat nat
  | Ec_close
  | Osal_usleep nat
  | Set_OpMode "8 word"
  | Set_Controlword "16 word"
  | Set_TargetVelocity "32 word"
  | Printf msg

subsection \<open>Program state\<close>

text \<open>
  The globals \<open>expectedWKC\<close>, \<open>needlf\<close>, \<open>wkc\<close>, \<open>inOP\<close>, the stack's \<open>ec_slave\<close>,
  \<open>ec_slavecount\<close>, \<open>ec_group\<close> and \<open>ec_DCtime\<close>, the two process images behind the
  pointers \<open>in_somanet_1\<close> and \<open>out_somanet_1\<close>, and the local \<open>j\<close> of \<open>simpletest\<close>
  (\<open>loc_j\<close>). The C \<open>int\<close>s are \<open>int\<close>: \<open>j\<close> counts at most 10000 cycles and
  \<open>expectedWKC\<close> is at most \<open>3 * 65535\<close>, so nothing wraps.
\<close>

record globals =
  expectedWKC :: int
  needlf :: bool
  wkc :: int
  inOP :: bool
  ec_slave :: "nat \<Rightarrow> ec_slavet"
  ec_slavecount :: nat
  ec_group :: "nat \<Rightarrow> ec_groupt"
  ec_DCtime :: "64 word"
  in_somanet_1 :: in_somanet_42t
  out_somanet_1 :: out_somanet_42t
  loc_j :: int
  trace :: "event list"

definition emit :: "event \<Rightarrow> globals \<Rightarrow> globals" where
  "emit e s = s\<lparr>trace := trace s @ [e]\<rparr>"

definition printf :: "msg \<Rightarrow> globals \<Rightarrow> globals" where
  "printf m s = emit (Printf m) s"

definition osal_usleep :: "nat \<Rightarrow> globals \<Rightarrow> globals" where
  "osal_usleep us s = emit (Osal_usleep us) s"

text \<open>The events a step added: the part of the later trace beyond the earlier one.\<close>

definition new_events :: "globals \<Rightarrow> globals \<Rightarrow> event list" where
  "new_events s s' = drop (length (trace s)) (trace s')"

section \<open>The cyclic loop of \<open>simpletest\<close>\<close>

subsection \<open>Stores into the output image\<close>

definition set_OpMode :: "8 word \<Rightarrow> globals \<Rightarrow> globals" where
  "set_OpMode v s = emit (Set_OpMode v) (s\<lparr>out_somanet_1 := (out_somanet_1 s)\<lparr>OpMode := v\<rparr>\<rparr>)"

definition set_Controlword :: "16 word \<Rightarrow> globals \<Rightarrow> globals" where
  "set_Controlword v s =
     emit (Set_Controlword v) (s\<lparr>out_somanet_1 := (out_somanet_1 s)\<lparr>Controlword := v\<rparr>\<rparr>)"

definition set_TargetVelocity :: "32 word \<Rightarrow> globals \<Rightarrow> globals" where
  "set_TargetVelocity v s =
     emit (Set_TargetVelocity v)
       (s\<lparr>out_somanet_1 := (out_somanet_1 s)\<lparr>TargetVelocity := v\<rparr>\<rparr>)"

subsection \<open>The drive state machine (source lines 159 to 176)\<close>

text \<open>
  \<open>in_somanet_1->Statusword & mask\<close>: the \<open>int16\<close> is promoted to \<open>int\<close> (sign
  extended, \<open>sint\<close>) and masked there.
\<close>

definition masked :: "16 word \<Rightarrow> int \<Rightarrow> int" where
  "masked sw m = sint sw AND m"

definition drive_state_machine :: "globals \<Rightarrow> globals" where
  "drive_state_machine s =
     (let sw = Statusword (in_somanet_1 s) in
      if masked sw 0x004F = 0x0008 then set_Controlword 0x80 s
      else if masked sw 0x004F = 0x0040 then set_Controlword 0x06 s
      else if masked sw 0x006F = 0x0021 then set_Controlword 0x07 s
      else if masked sw 0x006F = 0x0023 then set_Controlword 0x0F s
      else if masked sw 0x006F = 0x0027 then set_TargetVelocity 100 s
      else s)"

subsection \<open>One cycle (the body of the \<open>for\<close> loop, lines 135 to 194)\<close>

text \<open>
  What one process-data exchange leaves behind: the working counter it returns, the
  input image and the distributed-clock time.
\<close>

record exchange =
  x_wkc :: int
  x_inputs :: in_somanet_42t
  x_DCtime :: "64 word"

definition ec_send_processdata :: "globals \<Rightarrow> globals" where
  "ec_send_processdata s = emit Ec_send_processdata s"

text \<open>\<open>ec_receive_processdata\<close> refreshes the input image and \<open>ec_DCtime\<close>; its return
  value is used by the caller.\<close>

definition ec_receive_processdata :: "exchange \<Rightarrow> globals \<Rightarrow> globals" where
  "ec_receive_processdata x s =
     emit Ec_receive_processdata (s\<lparr>in_somanet_1 := x_inputs x, ec_DCtime := x_DCtime x\<rparr>)"

text \<open>The seven \<open>printf\<close> calls of the status line and \<open>needlf = TRUE\<close>.\<close>

definition print_status :: "nat \<Rightarrow> globals \<Rightarrow> globals" where
  "print_status i s =
     (let s1 = printf (M_Processdata_cycle i (wkc s)) s;
          s2 = printf (M_Statusword (Statusword (in_somanet_1 s1))) s1;
          s3 = printf (M_Op_Mode_Display (OpModeDisplay (in_somanet_1 s2))) s2;
          s4 = printf (M_ActualPos (PositionValue (in_somanet_1 s3))) s3;
          s5 = printf (M_ActualVel (VelocityValue (in_somanet_1 s4))) s4;
          s6 = printf (M_DemandVel (VelocityDemandValue (in_somanet_1 s5))) s5;
          s7 = printf (M_T (ec_DCtime s6)) s6
      in s7\<lparr>needlf := True\<rparr>)"

text \<open>The block guarded by \<open>wkc >= expectedWKC\<close> (lines 140 to 192).\<close>

definition accepted_cycle :: "nat \<Rightarrow> globals \<Rightarrow> globals" where
  "accepted_cycle i s =
     (let s1 = s\<lparr>loc_j := loc_j s + 1\<rparr>;
          s2 = (if loc_j s1 = 1 then set_OpMode 9 s1 else s1);
          s3 = drive_state_machine s2
      in print_status i s3)"

definition cycle :: "exchange \<Rightarrow> nat \<Rightarrow> globals \<Rightarrow> globals" where
  "cycle x i s =
     (let s1 = ec_send_processdata s;
          s2 = (ec_receive_processdata x s1)\<lparr>wkc := x_wkc x\<rparr>;
          s3 = (if wkc s2 \<ge> expectedWKC s2 then accepted_cycle i s2 else s2)
      in osal_usleep 5000 s3)"

text \<open>
  \<open>for(i = 1; i <= 10000; i++)\<close>: the cycles for the indices of a list, in order; the
  environment gives the exchange of cycle \<open>i\<close>.
\<close>

definition cycles :: "(nat \<Rightarrow> exchange) \<Rightarrow> nat list \<Rightarrow> globals \<Rightarrow> globals" where
  "cycles xs is s = fold (\<lambda>i. cycle (xs i) i) is s"

definition cyclic_loop :: "(nat \<Rightarrow> exchange) \<Rightarrow> globals \<Rightarrow> globals" where
  "cyclic_loop xs s = cycles xs [1..<10001] s"

section \<open>Calls into the stack that refresh its tables\<close>

text \<open>
  Modelled from the spec: the calls of the stack's interface that touch the device
  table (request a state, wait for a state, read the device states), whose code is not
  among the sources. What such a call finds on the bus is an argument, supplied by the
  environment of the caller.
\<close>

definition set_state :: "nat \<Rightarrow> 16 word \<Rightarrow> globals \<Rightarrow> globals" where
  "set_state k q s = s\<lparr>ec_slave := (ec_slave s)(k := (ec_slave s k)\<lparr>state := q\<rparr>)\<rparr>"

definition set_islost :: "nat \<Rightarrow> bool \<Rightarrow> globals \<Rightarrow> globals" where
  "set_islost k b s = s\<lparr>ec_slave := (ec_slave s)(k := (ec_slave s k)\<lparr>islost := b\<rparr>)\<rparr>"

definition set_docheckstate :: "bool \<Rightarrow> globals \<Rightarrow> globals" where
  "set_docheckstate b s =
     s\<lparr>ec_group := (ec_group s)
        (unat currentgroup := (ec_group s (unat currentgroup))\<lparr>docheckstate := b\<rparr>)\<rparr>"

text \<open>\<open>ec_writestate(k)\<close> sends the state held in \<open>ec_slave[k].state\<close>; it changes no table.\<close>

definition ec_writestate :: "nat \<Rightarrow> globals \<Rightarrow> globals" where
  "ec_writestate k s = emit (Ec_writestate k (state (ec_slave s k))) s"

text \<open>\<open>ec_statecheck(k, req, timeout)\<close> waits and leaves the state it read, \<open>got\<close>, in
  \<open>ec_slave[k].state\<close>.\<close>

definition ec_statecheck :: "nat \<Rightarrow> 16 word \<Rightarrow> 16 word \<Rightarrow> globals \<Rightarrow> globals" where
  "ec_statecheck k req got s = emit (Ec_statecheck k req) (set_state k got s)"

text \<open>\<open>ec_readstate()\<close> refreshes \<open>state\<close> and \<open>ALstatuscode\<close> of the entries
  \<open>0 .. ec_slavecount\<close>.\<close>

definition ec_readstate :: "(nat \<Rightarrow> 16 word) \<Rightarrow> (nat \<Rightarrow> 16 word) \<Rightarrow> globals \<Rightarrow> globals" where
  "ec_readstate st al s =
     emit Ec_readstate
       (s\<lparr>ec_slave := (\<lambda>k. if k \<le> ec_slavecount s
                             then (ec_slave s k)\<lparr>state := st k, ALstatuscode := al k\<rparr>
                             else ec_slave s k)\<rparr>)"

section \<open>\<open>simpletest\<close>\<close>

text \<open>
  What the stack answers during one run of \<open>simpletest\<close>: the return values of \<open>ec_init\<close>
  and \<open>ec_config_init\<close>, the tables after configuration, the state \<open>ec_statecheck\<close>
  finds, the exchanges (the one before the wait, attempt \<open>n\<close> of the wait, cycle \<open>i\<close> of
  the cyclic loop) and what \<open>ec_readstate\<close> reads on the failure path.
\<close>

record sim_env =
  ec_init_ret :: int
  ec_config_init_ret :: int
  cfg_slavecount :: nat
  cfg_slave :: "nat \<Rightarrow> ec_slavet"
  cfg_group :: "nat \<Rightarrow> ec_groupt"
  safeop_state :: "16 word"
  first_exch :: exchange
  wait_exch :: "nat \<Rightarrow> exchange"
  wait_state :: "nat \<Rightarrow> 16 word"
  cyc_exch :: "nat \<Rightarrow> exchange"
  rd_state :: "nat \<Rightarrow> 16 word"
  rd_ALstatuscode :: "nat \<Rightarrow> 16 word"

text \<open>Lines 89 to 109: configuration, the expected working counter, the request for the
  operational state.\<close>

definition startup :: "sim_env \<Rightarrow> globals \<Rightarrow> globals" where
  "startup env s =
     (let s1 = printf (M_slaves_found (ec_slavecount s)) s;
          s2 = emit Ec_config_map (s1\<lparr>ec_group := cfg_group env\<rparr>);
          s3 = emit Ec_configdc s2;
          s4 = printf M_Slaves_mapped s3;
          s5 = ec_statecheck 0 EC_STATE_SAFE_OP (safeop_state env) s4;
          s6 = printf M_segments s5;
          s7 = printf M_Request_operational s6;
          s8 = s7\<lparr>expectedWKC :=
                   uint (outputsWKC (ec_group s7 0)) * 2 + uint (inputsWKC (ec_group s7 0))\<rparr>;
          s9 = printf (M_Calculated_workcounter (expectedWKC s8)) s8;
          s10 = set_state 0 EC_STATE_OPERATIONAL s9;
          s11 = ec_send_processdata s10;
          s12 = ec_receive_processdata (first_exch env) s11
      in ec_writestate 0 s12)"

text \<open>The body of the \<open>do ... while\<close> (lines 114 to 116), attempt \<open>n\<close>.\<close>

definition wait_attempt :: "sim_env \<Rightarrow> nat \<Rightarrow> globals \<Rightarrow> globals" where
  "wait_attempt env n s =
     (let s1 = ec_send_processdata s;
          s2 = ec_receive_processdata (wait_exch env n) s1
      in ec_statecheck 0 EC_STATE_OPERATIONAL (wait_state env n) s2)"

text \<open>
  \<open>do body while (chk-- && (ec_slave[0].state != EC_STATE_OPERATIONAL))\<close>: the body
  runs, then \<open>chk\<close> is tested before it is decremented. The first argument is \<open>chk\<close>,
  the second counts the attempts made so far.
\<close>

fun op_wait :: "sim_env \<Rightarrow> nat \<Rightarrow> nat \<Rightarrow> globals \<Rightarrow> globals" where
  "op_wait env 0 n s = wait_attempt env n s"
| "op_wait env (Suc chk) n s =
     (let s1 = wait_attempt env n s in
      if state (ec_slave s1 0) \<noteq> EC_STATE_OPERATIONAL then op_wait env chk (Suc n) s1 else s1)"

text \<open>Lines 121 to 196: the operational branch.\<close>

definition operational :: "sim_env \<Rightarrow> globals \<Rightarrow> globals" where
  "operational env s =
     (let s1 = printf M_Operational_reached s;
          s2 = s1\<lparr>inOP := True\<rparr>;
          s3 = s2\<lparr>loc_j := 0\<rparr>;
          s4 = cyclic_loop (cyc_exch env) s3
      in s4\<lparr>inOP := False\<rparr>)"

text \<open>Lines 200 to 209: the branch taken when the wait ended below operational.\<close>

definition slave_diag :: "nat \<Rightarrow> globals \<Rightarrow> globals" where
  "slave_diag i s =
     (if state (ec_slave s i) \<noteq> EC_STATE_OPERATIONAL
      then printf (M_Slave_State i (state (ec_slave s i)) (ALstatuscode (ec_slave s i))) s
      else s)"

definition not_operational :: "sim_env \<Rightarrow> globals \<Rightarrow> globals" where
  "not_operational env s =
     (let s1 = printf M_Not_all_operational s;
          s2 = ec_readstate (rd_state env) (rd_ALstatuscode env) s1
      in fold slave_diag [1..<Suc (ec_slavecount s2)] s2)"

text \<open>Lines 211 to 214.\<close>

definition request_init :: "globals \<Rightarrow> globals" where
  "request_init s =
     (let s1 = printf M_Request_init s;
          s2 = set_state 0 EC_STATE_INIT s1
      in ec_writestate 0 s2)"

text \<open>Lines 89 to 214: the branch \<open>ec_config_init(FALSE) > 0\<close>.\<close>

definition configured :: "sim_env \<Rightarrow> globals \<Rightarrow> globals" where
  "configured env s =
     (let s1 = startup env s;
          s2 = op_wait env 200 0 s1;
          s3 = (if state (ec_slave s2 0) = EC_STATE_OPERATIONAL
                then operational env s2 else not_operational env s2)
      in request_init s3)"

definition simpletest :: "sim_env \<Rightarrow> globals \<Rightarrow> globals" where
  "simpletest env s =
     (let s1 = s\<lparr>needlf := False, inOP := False\<rparr>;
          s2 = printf M_Starting_simple_test s1;
          s3 = emit Ec_init s2
      in if ec_init_ret env \<noteq> 0 then
           (let s4 = printf M_ec_init_succeeded s3;
                s5 = emit Ec_config_init
                       (s4\<lparr>ec_slavecount := cfg_slavecount env, ec_slave := cfg_slave env\<rparr>);
                s6 = (if ec_config_init_ret env > 0 then configured env s5
                      else printf M_No_slaves_found s5);
                s7 = printf M_End_simple_test s6
            in emit Ec_close s7)
         else printf M_No_socket s3)"

section \<open>\<open>ecatcheck\<close>, the supervisor\<close>

text \<open>
  What the stack answers during one iteration of the supervisor: the states
  \<open>ec_readstate\<close> reads, the state \<open>ec_statecheck\<close> finds for a device, and for
  \<open>ec_reconfig_slave\<close> and \<open>ec_recover_slave\<close> the return value and the state the call
  leaves in the device's entry.
\<close>

record chk_env =
  rs_state :: "nat \<Rightarrow> 16 word"
  rs_ALstatuscode :: "nat \<Rightarrow> 16 word"
  sc_state :: "nat \<Rightarrow> 16 word"
  reconfig_ret :: "nat \<Rightarrow> int"
  reconfig_state :: "nat \<Rightarrow> 16 word"
  recover_ret :: "nat \<Rightarrow> int"
  recover_state :: "nat \<Rightarrow> 16 word"

definition ec_reconfig_slave :: "chk_env \<Rightarrow> nat \<Rightarrow> globals \<Rightarrow> globals" where
  "ec_reconfig_slave e k s =
     emit (Ec_reconfig_slave k EC_TIMEOUTMON) (set_state k (reconfig_state e k) s)"

definition ec_recover_slave :: "chk_env \<Rightarrow> nat \<Rightarrow> globals \<Rightarrow> globals" where
  "ec_recover_slave e k s =
     emit (Ec_recover_slave k EC_TIMEOUTMON) (set_state k (recover_state e k) s)"

text \<open>Lines 252 to 281: the \<open>if ... else if\<close> chain for a device of the group that is
  not operational.\<close>

definition recover_action :: "chk_env \<Rightarrow> nat \<Rightarrow> globals \<Rightarrow> globals" where
  "recover_action e k s =
     (if state (ec_slave s k) = EC_STATE_SAFE_OP + EC_STATE_ERROR then
        (let s1 = printf (M_ERROR_attempting_ack k) s;
             s2 = set_state k (EC_STATE_SAFE_OP + EC_STATE_ACK) s1
         in ec_writestate k s2)
      else if state (ec_slave s k) = EC_STATE_SAFE_OP then
        (let s1 = printf (M_WARNING_change_to_OPERATIONAL k) s;
             s2 = set_state k EC_STATE_OPERATIONAL s1
         in ec_writestate k s2)
      else if state (ec_slave s k) > EC_STATE_NONE then
        (let s1 = ec_reconfig_slave e k s in
         if reconfig_ret e k \<noteq> 0
         then printf (M_MESSAGE_reconfigured k) (set_islost k False s1) else s1)
      else if \<not> islost (ec_slave s k) then
        (let s1 = ec_statecheck k EC_STATE_OPERATIONAL (sc_state e k) s in
         if state (ec_slave s1 k) = EC_STATE_NONE
         then printf (M_ERROR_lost k) (set_islost k True s1) else s1)
      else s)"

text \<open>Lines 283 to 298: the block for a device marked lost.\<close>

definition lost_action :: "chk_env \<Rightarrow> nat \<Rightarrow> globals \<Rightarrow> globals" where
  "lost_action e k s =
     (if islost (ec_slave s k) then
        (if state (ec_slave s k) = EC_STATE_NONE then
           (let s1 = ec_recover_slave e k s in
            if recover_ret e k \<noteq> 0
            then printf (M_MESSAGE_recovered k) (set_islost k False s1) else s1)
         else printf (M_MESSAGE_found k) (set_islost k False s))
      else s)"

text \<open>Lines 249 to 298: the body of the \<open>for\<close> loop over the devices.\<close>

definition check_slave :: "chk_env \<Rightarrow> nat \<Rightarrow> globals \<Rightarrow> globals" where
  "check_slave e k s =
     (let s1 = (if group (ec_slave s k) = currentgroup
                     \<and> state (ec_slave s k) \<noteq> EC_STATE_OPERATIONAL
                then recover_action e k (set_docheckstate True s) else s)
      in lost_action e k s1)"

text \<open>Lines 239 to 301: the sweep, the block guarded by the wake condition.\<close>

definition sweep :: "chk_env \<Rightarrow> globals \<Rightarrow> globals" where
  "sweep e s =
     (let s1 = (if needlf s then printf M_newline (s\<lparr>needlf := False\<rparr>) else s);
          s2 = set_docheckstate False s1;
          s3 = ec_readstate (rs_state e) (rs_ALstatuscode e) s2;
          s4 = fold (check_slave e) [1..<Suc (ec_slavecount s3)] s3
      in if \<not> docheckstate (ec_group s4 (unat currentgroup))
         then printf M_OK_all_resumed s4 else s4)"

text \<open>Line 237, the wake condition, and lines 237 to 303, one iteration of \<open>while(1)\<close>.\<close>

definition wake :: "globals \<Rightarrow> bool" where
  "wake s \<longleftrightarrow>
     inOP s \<and> (wkc s < expectedWKC s \<or> docheckstate (ec_group s (unat currentgroup)))"

definition ecatcheck_iteration :: "chk_env \<Rightarrow> globals \<Rightarrow> globals" where
  "ecatcheck_iteration e s = osal_usleep 10000 (if wake s then sweep e s else s)"


section \<open>The state machine as the specification words it\<close>

text \<open>
  The specification describes the state machine as an ordered list of (mask, expected
  pattern) pairs with a command each, of which the first match is applied. The list
  below follows the specification; \<open>spec_state_machine\<close> applies its first match.
\<close>

datatype command = Write_Controlword "16 word" | Write_TargetVelocity "32 word"

definition spec_transitions :: "(int \<times> int \<times> command) list" where
  "spec_transitions =
     [(0x004F, 0x0008, Write_Controlword 0x0080),
      (0x004F, 0x0040, Write_Controlword 0x0006),
      (0x006F, 0x0021, Write_Controlword 0x0007),
      (0x006F, 0x0023, Write_Controlword 0x000F),
      (0x006F, 0x0027, Write_TargetVelocity 100)]"

fun matches :: "16 word \<Rightarrow> int \<times> int \<times> command \<Rightarrow> bool" where
  "matches sw (m, p, c) = (masked sw m = p)"

fun apply_command :: "command \<Rightarrow> globals \<Rightarrow> globals" where
  "apply_command (Write_Controlword v) s = set_Controlword v s"
| "apply_command (Write_TargetVelocity v) s = set_TargetVelocity v s"

definition spec_state_machine :: "globals \<Rightarrow> globals" where
  "spec_state_machine s =
     (case find (matches (Statusword (in_somanet_1 s))) spec_transitions of
        None \<Rightarrow> s
      | Some (m, p, c) \<Rightarrow> apply_command c s)"

text \<open>The same five tests as five independent \<open>if\<close> statements, each reading the
  status word again, for comparison with the \<open>else if\<close> chain.\<close>

definition independent_ifs :: "globals \<Rightarrow> globals" where
  "independent_ifs s =
     (let s1 = (if masked (Statusword (in_somanet_1 s)) 0x004F = 0x0008
                then set_Controlword 0x80 s else s);
          s2 = (if masked (Statusword (in_somanet_1 s1)) 0x004F = 0x0040
                then set_Controlword 0x06 s1 else s1);
          s3 = (if masked (Statusword (in_somanet_1 s2)) 0x006F = 0x0021
                then set_Controlword 0x07 s2 else s2);
          s4 = (if masked (Statusword (in_somanet_1 s3)) 0x006F = 0x0023
                then set_Controlword 0x0F s3 else s3)
      in if masked (Statusword (in_somanet_1 s4)) 0x006F = 0x0027
         then set_TargetVelocity 100 s4 else s4)"

text \<open>Recognisers of events, for counting them in a trace.\<close>

fun is_Set_OpMode :: "event \<Rightarrow> bool" where
  "is_Set_OpMode (Set_OpMode v) = True"
| "is_Set_OpMode e = False"

fun is_transition :: "event \<Rightarrow> bool" where
  "is_transition (Set_Controlword v) = True"
| "is_transition (Set_TargetVelocity v) = True"
| "is_transition e = False"

fun is_Printf :: "event \<Rightarrow> bool" where
  "is_Printf (Printf m) = True"
| "is_Printf e = False"

text \<open>A cycle is accepted when the working counter of its exchange reaches the expected
  one (the test of line 138).\<close>

definition accepted :: "globals \<Rightarrow> exchange \<Rightarrow> bool" where
  "accepted s x \<longleftrightarrow> x_wkc x \<ge> expectedWKC s"

section \<open>The state at program start\<close>

text \<open>C zero-initialises the globals (\<open>IOmap\<close>, \<open>wkc\<close>, \<open>inOP\<close>, the stack's tables);
  only \<open>currentgroup\<close> has an initialiser, 0.\<close>

definition zero_inputs :: in_somanet_42t where
  "zero_inputs =
     \<lparr>Statusword = 0, OpModeDisplay = 0, PositionValue = 0, VelocityValue = 0,
      TorqueValue = 0, SecPositionValue = 0, SecVelocityValue = 0, AnalogInput1 = 0,
      AnalogInput2 = 0, AnalogInput3 = 0, AnalogInput4 = 0, TuningStatus = 0,
      DigitalInput1 = 0, DigitalInput2 = 0, DigitalInput3 = 0, DigitalInput4 = 0,
      UserMISO = 0, Timestamp = 0, PositionDemandInternalValue = 0,
      VelocityDemandValue = 0, TorqueDemand = 0\<rparr>"

definition zero_outputs :: out_somanet_42t where
  "zero_outputs =
     \<lparr>Controlword = 0, OpMode = 0, TargetTorque = 0, TargetPosition = 0,
      TargetVelocity = 0, TorqueOffset = 0, TuningCommand = 0, DigitalOutput1 = 0,
      DigitalOutput2 = 0, DigitalOutput3 = 0, DigitalOutput4 = 0, UserMOSI = 0,
      VelocityOffset = 0\<rparr>"

definition zero_slave :: ec_slavet where
  "zero_slave = \<lparr>state = 0, ALstatuscode = 0, group = 0, islost = False\<rparr>"

definition zero_group :: ec_groupt where
  "zero_group = \<lparr>outputsWKC = 0, inputsWKC = 0, docheckstate = False\<rparr>"

definition initial_globals :: globals where
  "initial_globals =
     \<lparr>expectedWKC = 0, needlf = False, wkc = 0, inOP = False,
      ec_slave = (\<lambda>k. zero_slave), ec_slavecount = 0, ec_group = (\<lambda>g. zero_group),
      ec_DCtime = 0, in_somanet_1 = zero_inputs, out_somanet_1 = zero_outputs,
      loc_j = 0, trace = []\<rparr>"

section \<open>Concrete inputs\<close>

text \<open>An exchange with a given working counter and status word, and a stack that finds
  one device, a group with working-counter counts 2 and 3, and never sees the
  operational state.\<close>

definition exchange_of :: "int \<Rightarrow> 16 word \<Rightarrow> exchange" where
  "exchange_of w sw =
     \<lparr>x_wkc = w, x_inputs = zero_inputs\<lparr>Statusword := sw\<rparr>, x_DCtime = 0\<rparr>"

definition example_group :: ec_groupt where
  "example_group = \<lparr>outputsWKC = 2, inputsWKC = 3, docheckstate = False\<rparr>"

definition example_env :: sim_env where
  "example_env =
     \<lparr>ec_init_ret = 1, ec_config_init_ret = 1, cfg_slavecount = 1,
      cfg_slave = (\<lambda>k. zero_slave), cfg_group = (\<lambda>g. example_group),
      safeop_state = 0x04, first_exch = exchange_of 7 0,
      wait_exch = (\<lambda>n. exchange_of 7 0), wait_state = (\<lambda>n. 0x04),
      cyc_exch = (\<lambda>i. exchange_of 7 0x0040),
      rd_state = (\<lambda>k. 0x04), rd_ALstatuscode = (\<lambda>k. 0)\<rparr>"

definition example_chk_env :: chk_env where
  "example_chk_env =
     \<lparr>rs_state = (\<lambda>k. 0x04), rs_ALstatuscode = (\<lambda>k. 0), sc_state = (\<lambda>k. 0x04),
      reconfig_ret = (\<lambda>k. 0), reconfig_state = (\<lambda>k. 0x04),
      recover_ret = (\<lambda>k. 1), recover_state = (\<lambda>k. 0x04)\<rparr>"

text \<open>A state with one device, of the given link state and lost flag, in group 0.\<close>

definition one_device :: "16 word \<Rightarrow> bool \<Rightarrow> globals" where
  "one_device st lost =
     initial_globals\<lparr>ec_slavecount := 1,
       ec_slave := (\<lambda>k. \<lparr>state = st, ALstatuscode = 0, group = 0, islost = lost\<rparr>)\<rparr>"

section \<open>Notions used in the statements\<close>

text \<open>The events of one attempt of the wait for the operational state.\<close>

definition attempt_events :: "event list" where
  "attempt_events =
     [Ec_send_processdata, Ec_receive_processdata, Ec_statecheck 0 EC_STATE_OPERATIONAL]"

text \<open>Calls that ask the stack to act on one device.\<close>

fun is_device_call :: "event \<Rightarrow> bool" where
  "is_device_call (Ec_writestate k q) = True"
| "is_device_call (Ec_reconfig_slave k t) = True"
| "is_device_call (Ec_recover_slave k t) = True"
| "is_device_call (Ec_statecheck k q) = True"
| "is_device_call e = False"

text \<open>
  No change in the reported link states during a sweep: every call that refreshes a
  device's entry finds the state \<open>ec_readstate\<close> read.
\<close>

definition stable :: "chk_env \<Rightarrow> bool" where
  "stable e \<longleftrightarrow>
     (\<forall>k. sc_state e k = rs_state e k \<and> reconfig_state e k = rs_state e k
          \<and> recover_state e k = rs_state e k)"

text \<open>
  What \<open>check_slave\<close> does to the entry of the device it looks at, as a function of
  that entry alone (shown to agree with \<open>check_slave\<close> in \<open>check_slave_entry\<close>).
\<close>

definition recover_entry :: "chk_env \<Rightarrow> nat \<Rightarrow> ec_slavet \<Rightarrow> ec_slavet" where
  "recover_entry e k r =
     (if state r = EC_STATE_SAFE_OP + EC_STATE_ERROR
        then r\<lparr>state := EC_STATE_SAFE_OP + EC_STATE_ACK\<rparr>
      else if state r = EC_STATE_SAFE_OP then r\<lparr>state := EC_STATE_OPERATIONAL\<rparr>
      else if state r > EC_STATE_NONE then
        (if reconfig_ret e k \<noteq> 0 then r\<lparr>state := reconfig_state e k, islost := False\<rparr>
         else r\<lparr>state := reconfig_state e k\<rparr>)
      else if \<not> islost r then
        (if sc_state e k = EC_STATE_NONE then r\<lparr>state := sc_state e k, islost := True\<rparr>
         else r\<lparr>state := sc_state e k\<rparr>)
      else r)"

definition lost_entry :: "chk_env \<Rightarrow> nat \<Rightarrow> ec_slavet \<Rightarrow> ec_slavet" where
  "lost_entry e k r =
     (if islost r then
        (if state r = EC_STATE_NONE then
           (if recover_ret e k \<noteq> 0 then r\<lparr>state := recover_state e k, islost := False\<rparr>
            else r\<lparr>state := recover_state e k\<rparr>)
         else r\<lparr>islost := False\<rparr>)
      else r)"

definition needs_check :: "ec_slavet \<Rightarrow> bool" where
  "needs_check r \<longleftrightarrow> group r = currentgroup \<and> state r \<noteq> EC_STATE_OPERATIONAL"

text \<open>The entry of device \<open>k\<close> after \<open>ec_readstate\<close> refreshed it.\<close>

definition refreshed :: "chk_env \<Rightarrow> nat \<Rightarrow> ec_slavet \<Rightarrow> ec_slavet" where
  "refreshed e k r = r\<lparr>state := rs_state e k, ALstatuscode := rs_ALstatuscode e k\<rparr>"

definition entry_after :: "chk_env \<Rightarrow> nat \<Rightarrow> ec_slavet \<Rightarrow> ec_slavet" where
  "entry_after e k r = lost_entry e k (if needs_check r then recover_entry e k r else r)"

section \<open>Lemmas on the cyclic loop\<close>

lemmas step_defs = emit_def printf_def osal_usleep_def set_OpMode_def set_Controlword_def
  set_TargetVelocity_def ec_send_processdata_def ec_receive_processdata_def

lemma new_events_append:
  "prefix (trace s) (trace s') \<Longrightarrow> prefix (trace s') (trace s'') \<Longrightarrow>
   new_events s s'' = new_events s s' @ new_events s' s''"
  by (auto simp: new_events_def prefix_def)

lemma new_events_self: "new_events s s = []"
  by (simp add: new_events_def)

lemma dsm_cases:
  "drive_state_machine s = s \<or> (\<exists>v. drive_state_machine s = set_Controlword v s)
     \<or> (\<exists>v. drive_state_machine s = set_TargetVelocity v s)"
  unfolding drive_state_machine_def Let_def by (simp split: if_splits) blast

lemma cycle_degraded:
  "x_wkc x < expectedWKC s \<Longrightarrow>
   cycle x i s = s\<lparr>wkc := x_wkc x, ec_DCtime := x_DCtime x, in_somanet_1 := x_inputs x,
      trace := trace s @ [Ec_send_processdata, Ec_receive_processdata, Osal_usleep 5000]\<rparr>"
  by (simp add: cycle_def Let_def step_defs)

text \<open>The state the guarded block of a cycle starts from.\<close>

lemma cycle_accepted:
  "expectedWKC s \<le> x_wkc x \<Longrightarrow>
   cycle x i s = osal_usleep 5000 (accepted_cycle i
      ((ec_receive_processdata x (ec_send_processdata s))\<lparr>wkc := x_wkc x\<rparr>))"
  by (simp add: cycle_def Let_def step_defs)

lemma exchanged_frame:
  "expectedWKC ((ec_receive_processdata x (ec_send_processdata s))\<lparr>wkc := x_wkc x\<rparr>) = expectedWKC s"
  "inOP ((ec_receive_processdata x (ec_send_processdata s))\<lparr>wkc := x_wkc x\<rparr>) = inOP s"
  "loc_j ((ec_receive_processdata x (ec_send_processdata s))\<lparr>wkc := x_wkc x\<rparr>) = loc_j s"
  "out_somanet_1 ((ec_receive_processdata x (ec_send_processdata s))\<lparr>wkc := x_wkc x\<rparr>) = out_somanet_1 s"
  "trace ((ec_receive_processdata x (ec_send_processdata s))\<lparr>wkc := x_wkc x\<rparr>) =
     trace s @ [Ec_send_processdata, Ec_receive_processdata]"
  by (simp_all add: step_defs)

lemma accepted_cycle_frame:
  "expectedWKC (accepted_cycle i s) = expectedWKC s"
  "inOP (accepted_cycle i s) = inOP s"
  "loc_j (accepted_cycle i s) = loc_j s + 1"
  "prefix (trace s) (trace (accepted_cycle i s))"
  "filter is_Set_OpMode (new_events s (accepted_cycle i s)) = (if loc_j s = 0 then [Set_OpMode 9] else [])"
  "length (filter is_transition (new_events s (accepted_cycle i s))) \<le> 1"
  "filter is_Printf (new_events s (accepted_cycle i s)) \<noteq> []"
  using dsm_cases [of "set_OpMode 9 (s\<lparr>loc_j := loc_j s + 1\<rparr>)"] dsm_cases [of "s\<lparr>loc_j := loc_j s + 1\<rparr>"]
  by (auto simp: accepted_cycle_def print_status_def Let_def step_defs new_events_def)

lemma cycle_frame:
  "expectedWKC (cycle x i s) = expectedWKC s"
  "inOP (cycle x i s) = inOP s"
  "loc_j (cycle x i s) = (if accepted s x then loc_j s + 1 else loc_j s)"
  "prefix (trace s) (trace (cycle x i s))"
proof -
  let ?t = "(ec_receive_processdata x (ec_send_processdata s))\<lparr>wkc := x_wkc x\<rparr>"
  show "expectedWKC (cycle x i s) = expectedWKC s"
    by (cases "x_wkc x < expectedWKC s")
       (simp_all add: cycle_degraded cycle_accepted accepted_cycle_frame exchanged_frame osal_usleep_def emit_def)
  show "inOP (cycle x i s) = inOP s"
    by (cases "x_wkc x < expectedWKC s")
       (simp_all add: cycle_degraded cycle_accepted accepted_cycle_frame exchanged_frame osal_usleep_def emit_def)
  show "loc_j (cycle x i s) = (if accepted s x then loc_j s + 1 else loc_j s)"
    by (cases "x_wkc x < expectedWKC s")
       (simp_all add: cycle_degraded cycle_accepted accepted_cycle_frame exchanged_frame osal_usleep_def emit_def accepted_def)
  show "prefix (trace s) (trace (cycle x i s))"
  proof (cases "x_wkc x < expectedWKC s")
    case True
    then show ?thesis by (simp add: cycle_degraded)
  next
    case False
    have "prefix (trace s) (trace ?t)" by (simp add: exchanged_frame)
    also have "prefix (trace ?t) (trace (accepted_cycle i ?t))" by (rule accepted_cycle_frame)
    finally show ?thesis using False by (simp add: cycle_accepted osal_usleep_def emit_def)
  qed
qed

lemma cycle_events:
  "filter is_Set_OpMode (new_events s (cycle x i s)) =
     (if accepted s x \<and> loc_j s = 0 then [Set_OpMode 9] else [])"
  "length (filter is_transition (new_events s (cycle x i s))) \<le> 1"
proof -
  let ?t = "(ec_receive_processdata x (ec_send_processdata s))\<lparr>wkc := x_wkc x\<rparr>"
  let ?u = "accepted_cycle i ?t"
  have pt: "prefix (trace s) (trace ?t)" by (simp add: exchanged_frame)
  have pu: "prefix (trace ?t) (trace ?u)" by (rule accepted_cycle_frame)
  have pc: "prefix (trace ?u) (trace (osal_usleep 5000 ?u))" by (simp add: osal_usleep_def emit_def)
  have ptu: "prefix (trace s) (trace ?u)" using pt pu by (rule prefix_order.trans)
  have e1: "new_events s ?t = [Ec_send_processdata, Ec_receive_processdata]"
    by (simp add: new_events_def exchanged_frame)
  have e3: "new_events ?u (osal_usleep 5000 ?u) = [Osal_usleep 5000]"
    by (simp add: new_events_def osal_usleep_def emit_def)
  have ev: "new_events s (osal_usleep 5000 ?u) =
      [Ec_send_processdata, Ec_receive_processdata] @ new_events ?t ?u @ [Osal_usleep 5000]"
    using new_events_append [OF ptu pc] new_events_append [OF pt pu] e1 e3 by simp
  show "filter is_Set_OpMode (new_events s (cycle x i s)) =
     (if accepted s x \<and> loc_j s = 0 then [Set_OpMode 9] else [])"
  proof (cases "x_wkc x < expectedWKC s")
    case True
    then show ?thesis by (simp add: cycle_degraded new_events_def accepted_def)
  next
    case False
    then show ?thesis
      using accepted_cycle_frame(5) [of ?t i] by (simp add: cycle_accepted ev accepted_def exchanged_frame)
  qed
  show "length (filter is_transition (new_events s (cycle x i s))) \<le> 1"
  proof (cases "x_wkc x < expectedWKC s")
    case True
    then show ?thesis by (simp add: cycle_degraded new_events_def)
  next
    case False
    then show ?thesis
      using accepted_cycle_frame(6) [of ?t i] by (simp add: cycle_accepted ev)
  qed
qed

lemma cycles_Cons: "cycles xs (i # is) s = cycles xs is (cycle (xs i) i s)"
  by (simp add: cycles_def)

lemma cycles_snoc: "cycles xs (is @ [i]) s = cycle (xs i) i (cycles xs is s)"
  by (simp add: cycles_def)

lemma cycles_Nil: "cycles xs [] s = s"
  by (simp add: cycles_def)

lemma expectedWKC_cycles: "expectedWKC (cycles xs is s) = expectedWKC s"
  by (induction "is" rule: rev_induct) (simp_all add: cycles_Nil cycles_snoc cycle_frame)

lemma cycles_frame:
  "expectedWKC (cycles xs is s) = expectedWKC s"
  "inOP (cycles xs is s) = inOP s"
  "prefix (trace s) (trace (cycles xs is s))"
  "loc_j (cycles xs is s) = loc_j s + int (length (filter (\<lambda>i. accepted s (xs i)) is))"
proof -
  show "expectedWKC (cycles xs is s) = expectedWKC s"
    by (rule expectedWKC_cycles)
  have acc: "\<And>is x. accepted (cycles xs is s) x = accepted s x"
    by (simp add: accepted_def expectedWKC_cycles)
  show "inOP (cycles xs is s) = inOP s"
    by (induction "is" rule: rev_induct) (simp_all add: cycles_Nil cycles_snoc cycle_frame)
  show "prefix (trace s) (trace (cycles xs is s))"
  proof (induction "is" rule: rev_induct)
    case Nil
    then show ?case by (simp add: cycles_Nil)
  next
    case (snoc i "is")
    then show ?case
      using cycle_frame(4) [of "cycles xs is s" "xs i" i]
      by (auto simp: cycles_snoc intro: prefix_order.trans)
  qed
  show "loc_j (cycles xs is s) = loc_j s + int (length (filter (\<lambda>i. accepted s (xs i)) is))"
    using acc by (induction "is" rule: rev_induct) (simp_all add: cycles_Nil cycles_snoc cycle_frame)
qed

lemma cycles_opmode:
  "loc_j s = 0 \<Longrightarrow>
   filter is_Set_OpMode (new_events s (cycles xs is s)) =
     (if \<exists>i\<in>set is. accepted s (xs i) then [Set_OpMode 9] else [])"
proof (induction "is" rule: rev_induct)
  case Nil
  then show ?case by (simp add: cycles_Nil new_events_self)
next
  case (snoc i "is")
  let ?t = "cycles xs is s"
  have acc: "\<And>x. accepted ?t x = accepted s x"
    by (simp add: accepted_def cycles_frame)
  have j: "loc_j ?t = 0 \<longleftrightarrow> \<not> (\<exists>k\<in>set is. accepted s (xs k))"
    using snoc.prems by (simp add: cycles_frame filter_empty_conv)
  have "new_events s (cycle (xs i) i ?t) = new_events s ?t @ new_events ?t (cycle (xs i) i ?t)"
    by (rule new_events_append) (rule cycles_frame cycle_frame)+
  then show ?case
    using snoc j by (auto simp: cycles_snoc cycle_events acc)
qed

section \<open>Lemmas on the start-up and the wait for the operational state\<close>

lemmas stack_defs = ec_statecheck_def set_state_def ec_writestate_def set_islost_def
  set_docheckstate_def ec_readstate_def

lemma startup_expectedWKC:
  "expectedWKC (startup env s) =
     uint (outputsWKC (cfg_group env 0)) * 2 + uint (inputsWKC (cfg_group env 0))"
  by (simp add: startup_def Let_def step_defs stack_defs)

lemma wait_attempt_frame:
  "expectedWKC (wait_attempt env n s) = expectedWKC s"
  "inOP (wait_attempt env n s) = inOP s"
  "out_somanet_1 (wait_attempt env n s) = out_somanet_1 s"
  "ec_slavecount (wait_attempt env n s) = ec_slavecount s"
  "state (ec_slave (wait_attempt env n s) 0) = wait_state env n"
  "trace (wait_attempt env n s) =
     trace s @ [Ec_send_processdata, Ec_receive_processdata, Ec_statecheck 0 EC_STATE_OPERATIONAL]"
  by (simp_all add: wait_attempt_def Let_def step_defs stack_defs)

lemma op_wait_frame:
  "expectedWKC (op_wait env chk n s) = expectedWKC s \<and> inOP (op_wait env chk n s) = inOP s
   \<and> out_somanet_1 (op_wait env chk n s) = out_somanet_1 s
   \<and> ec_slavecount (op_wait env chk n s) = ec_slavecount s"
  by (induction chk arbitrary: n s) (simp_all add: wait_attempt_frame Let_def)

section \<open>The drive state machine\<close>

text \<open>
  Claim C1. For every status word the \<open>else if\<close> chain of the cyclic loop is the
  first-match rule over the five (mask, pattern) pairs in the order fault reset,
  shutdown, switch on, enable operation, set target velocity: it equals
  \<open>spec_state_machine\<close>, which applies the first matching entry of the ordered list
  and nothing else. The state machine, and a whole cycle, store at most once into the
  control word or the target velocity. A status word whose view under the mask
  \<open>0x004F\<close> is \<open>0x0008\<close> gives the control word \<open>0x0080\<close>, and one whose view is
  \<open>0x0040\<close> gives \<open>0x0006\<close>.
\<close>

theorem drive_state_machine_first_match:
  "drive_state_machine s = spec_state_machine s
   \<and> length (filter is_transition (new_events s (drive_state_machine s))) \<le> 1
   \<and> length (filter is_transition (new_events s (cycle x i s))) \<le> 1
   \<and> (masked (Statusword (in_somanet_1 s)) 0x004F = 0x0008 \<longrightarrow>
        Controlword (out_somanet_1 (drive_state_machine s)) = 0x0080
        \<and> new_events s (drive_state_machine s) = [Set_Controlword 0x0080])
   \<and> (masked (Statusword (in_somanet_1 s)) 0x004F = 0x0040 \<longrightarrow>
        Controlword (out_somanet_1 (drive_state_machine s)) = 0x0006
        \<and> new_events s (drive_state_machine s) = [Set_Controlword 0x0006])"
proof -
  have "drive_state_machine s = spec_state_machine s"
    by (simp add: drive_state_machine_def spec_state_machine_def spec_transitions_def Let_def)
  moreover have "length (filter is_transition (new_events s (drive_state_machine s))) \<le> 1"
    using dsm_cases [of s] by (auto simp: step_defs new_events_def)
  moreover have "length (filter is_transition (new_events s (cycle x i s))) \<le> 1"
    by (rule cycle_events)
  moreover have "masked (Statusword (in_somanet_1 s)) 0x004F = 0x0008 \<longrightarrow>
        Controlword (out_somanet_1 (drive_state_machine s)) = 0x0080
        \<and> new_events s (drive_state_machine s) = [Set_Controlword 0x0080]"
    by (simp add: drive_state_machine_def Let_def step_defs new_events_def)
  moreover have "masked (Statusword (in_somanet_1 s)) 0x004F = 0x0040 \<longrightarrow>
        Controlword (out_somanet_1 (drive_state_machine s)) = 0x0006
        \<and> new_events s (drive_state_machine s) = [Set_Controlword 0x0006]"
    by (simp add: drive_state_machine_def Let_def step_defs new_events_def)
  ultimately show ?thesis by blast
qed

theorem drive_state_machine_first_match_witness:
  "masked (Statusword (in_somanet_1 (initial_globals\<lparr>in_somanet_1 := zero_inputs\<lparr>Statusword := 0x0008\<rparr>\<rparr>))) 0x004F = 0x0008
   \<and> Controlword (out_somanet_1 (drive_state_machine
        (initial_globals\<lparr>in_somanet_1 := zero_inputs\<lparr>Statusword := 0x0008\<rparr>\<rparr>))) = 0x0080
   \<and> masked (Statusword (in_somanet_1 (initial_globals\<lparr>in_somanet_1 := zero_inputs\<lparr>Statusword := 0x0040\<rparr>\<rparr>))) 0x004F = 0x0040
   \<and> Controlword (out_somanet_1 (drive_state_machine
        (initial_globals\<lparr>in_somanet_1 := zero_inputs\<lparr>Statusword := 0x0040\<rparr>\<rparr>))) = 0x0006"
proof -
  have a: "masked (Statusword (in_somanet_1 (initial_globals\<lparr>in_somanet_1 := zero_inputs\<lparr>Statusword := 0x0008\<rparr>\<rparr>))) 0x004F = 0x0008"
    by (simp add: masked_def)
  have b: "masked (Statusword (in_somanet_1 (initial_globals\<lparr>in_somanet_1 := zero_inputs\<lparr>Statusword := 0x0040\<rparr>\<rparr>))) 0x004F = 0x0040"
    by (simp add: masked_def)
  show ?thesis
    using a b
      drive_state_machine_first_match [of "initial_globals\<lparr>in_somanet_1 := zero_inputs\<lparr>Statusword := 0x0008\<rparr>\<rparr>"]
      drive_state_machine_first_match [of "initial_globals\<lparr>in_somanet_1 := zero_inputs\<lparr>Statusword := 0x0040\<rparr>\<rparr>"]
    by blast
qed

section \<open>Degraded cycles\<close>

text \<open>
  Claim C2. A cycle whose working counter is below the expected one leaves the whole
  output image as it was, does not increment the counter of accepted cycles \<open>j\<close>, and
  its only events are the exchange and the sleep: the state machine stores nothing and
  no status line is printed. Only \<open>wkc\<close> and what the exchange refreshed (input image,
  clock) change.
\<close>

theorem degraded_cycle_leaves_command_buffer:
  assumes "x_wkc x < expectedWKC s"
  shows "out_somanet_1 (cycle x i s) = out_somanet_1 s
     \<and> loc_j (cycle x i s) = loc_j s
     \<and> needlf (cycle x i s) = needlf s
     \<and> new_events s (cycle x i s) = [Ec_send_processdata, Ec_receive_processdata, Osal_usleep 5000]
     \<and> cycle x i s = s\<lparr>wkc := x_wkc x, ec_DCtime := x_DCtime x, in_somanet_1 := x_inputs x,
          trace := trace s @ [Ec_send_processdata, Ec_receive_processdata, Osal_usleep 5000]\<rparr>"
  using assms by (simp add: cycle_degraded new_events_def)

theorem degraded_cycle_leaves_command_buffer_witness:
  "x_wkc (exchange_of 6 0x0008) < expectedWKC (initial_globals\<lparr>expectedWKC := 7\<rparr>)
   \<and> out_somanet_1 (cycle (exchange_of 6 0x0008) 1 (initial_globals\<lparr>expectedWKC := 7\<rparr>)) = zero_outputs
   \<and> new_events (initial_globals\<lparr>expectedWKC := 7\<rparr>)
        (cycle (exchange_of 6 0x0008) 1 (initial_globals\<lparr>expectedWKC := 7\<rparr>))
       = [Ec_send_processdata, Ec_receive_processdata, Osal_usleep 5000]"
proof -
  have h: "x_wkc (exchange_of 6 0x0008) < expectedWKC (initial_globals\<lparr>expectedWKC := 7\<rparr>)"
    by (simp add: exchange_of_def)
  have o: "out_somanet_1 (initial_globals\<lparr>expectedWKC := 7\<rparr>) = zero_outputs"
    by (simp add: initial_globals_def)
  show ?thesis
    using h degraded_cycle_leaves_command_buffer [OF h, of 1] unfolding o by blast
qed

section \<open>Mutual exclusion of the five tests\<close>

lemma masked_low4: "masked sw 0x4F AND 0x0F = masked sw 0x6F AND 0x0F"
  by (simp add: masked_def and.assoc)

lemma masked_bit6: "masked sw 0x4F AND 0x40 = masked sw 0x6F AND 0x40"
  by (simp add: masked_def and.assoc)

lemma masked_excl_1:
  "masked sw 0x4F = 0x08 \<Longrightarrow>
   masked sw 0x6F \<noteq> 0x21 \<and> masked sw 0x6F \<noteq> 0x23 \<and> masked sw 0x6F \<noteq> 0x27"
  using masked_low4 [of sw] by auto

lemma masked_excl_2:
  "masked sw 0x4F = 0x40 \<Longrightarrow>
   masked sw 0x6F \<noteq> 0x21 \<and> masked sw 0x6F \<noteq> 0x23 \<and> masked sw 0x6F \<noteq> 0x27"
  using masked_bit6 [of sw] by auto

text \<open>
  Claim C9. For every status word at most one of the five tests of the state machine
  holds (counted over the tests as the source writes them, and over the ordered list of
  the specification), so five independent \<open>if\<close> statements give the same state as the
  \<open>else if\<close> chain: the priority order never decides between two matching tests.
\<close>

theorem conditions_mutually_exclusive:
  "length (filter (\<lambda>(m, p). masked sw m = p)
       [(0x004F, 0x0008), (0x004F, 0x0040), (0x006F, 0x0021), (0x006F, 0x0023),
        (0x006F, 0x0027)]) \<le> 1
   \<and> length (filter (matches sw) spec_transitions) \<le> 1
   \<and> independent_ifs s = drive_state_machine s"
proof -
  have "length (filter (\<lambda>(m, p). masked sw m = p)
       [(0x004F, 0x0008), (0x004F, 0x0040), (0x006F, 0x0021), (0x006F, 0x0023),
        (0x006F, 0x0027)]) \<le> 1"
    using masked_excl_1 [of sw] masked_excl_2 [of sw] by simp
  moreover have "length (filter (matches sw) spec_transitions) \<le> 1"
    using masked_excl_1 [of sw] masked_excl_2 [of sw] by (simp add: spec_transitions_def)
  moreover have "independent_ifs s = drive_state_machine s"
    using masked_excl_1 [of "Statusword (in_somanet_1 s)"]
      masked_excl_2 [of "Statusword (in_somanet_1 s)"]
    by (simp add: drive_state_machine_def independent_ifs_def Let_def step_defs)
  ultimately show ?thesis by blast
qed

section \<open>The expected working counter\<close>

text \<open>
  Claim C4. The start-up sets \<open>expectedWKC\<close> to twice the group's output count plus its
  input count; the wait for the operational state and the cycles never assign it again.
  A cycle increments the counter of accepted cycles exactly when its working counter is
  at least \<open>expectedWKC\<close>, and leaves it exactly when the working counter is below. With
  counts 2 and 3 the expected value is 7, and a cycle whose exchange returns 6 is
  degraded: counter and output image stay as they were.
\<close>

theorem expected_working_counter:
  "expectedWKC (startup env s) =
     2 * uint (outputsWKC (cfg_group env 0)) + uint (inputsWKC (cfg_group env 0))
   \<and> expectedWKC (op_wait env chk n s) = expectedWKC s
   \<and> expectedWKC (cycles xs is s) = expectedWKC s
   \<and> (loc_j (cycle x i s) = loc_j s + 1 \<longleftrightarrow> expectedWKC s \<le> x_wkc x)
   \<and> (loc_j (cycle x i s) = loc_j s \<longleftrightarrow> x_wkc x < expectedWKC s)
   \<and> (outputsWKC (cfg_group env 0) = 2 \<and> inputsWKC (cfg_group env 0) = 3 \<longrightarrow>
        expectedWKC (startup env s) = 7
        \<and> (x_wkc x = 6 \<longrightarrow>
             loc_j (cycle x i (startup env s)) = loc_j (startup env s)
             \<and> out_somanet_1 (cycle x i (startup env s)) = out_somanet_1 (startup env s)))"
proof -
  have a: "expectedWKC (startup env s) =
     2 * uint (outputsWKC (cfg_group env 0)) + uint (inputsWKC (cfg_group env 0))"
    by (simp add: startup_expectedWKC)
  have b: "expectedWKC (op_wait env chk n s) = expectedWKC s"
    by (simp add: op_wait_frame)
  have c: "expectedWKC (cycles xs is s) = expectedWKC s"
    by (rule expectedWKC_cycles)
  have d: "(loc_j (cycle x i s) = loc_j s + 1 \<longleftrightarrow> expectedWKC s \<le> x_wkc x)
     \<and> (loc_j (cycle x i s) = loc_j s \<longleftrightarrow> x_wkc x < expectedWKC s)"
    by (auto simp: cycle_frame accepted_def)
  have e: "outputsWKC (cfg_group env 0) = 2 \<and> inputsWKC (cfg_group env 0) = 3 \<longrightarrow>
        expectedWKC (startup env s) = 7
        \<and> (x_wkc x = 6 \<longrightarrow>
             loc_j (cycle x i (startup env s)) = loc_j (startup env s)
             \<and> out_somanet_1 (cycle x i (startup env s)) = out_somanet_1 (startup env s))"
    by (simp add: a cycle_degraded)
  from a b c d e show ?thesis by blast
qed

theorem expected_working_counter_witness:
  "outputsWKC (cfg_group example_env 0) = 2 \<and> inputsWKC (cfg_group example_env 0) = 3
   \<and> expectedWKC (startup example_env initial_globals) = 7
   \<and> x_wkc (exchange_of 6 0x0040) = 6
   \<and> loc_j (cycle (exchange_of 6 0x0040) 1 (startup example_env initial_globals))
       = loc_j (startup example_env initial_globals)"
proof -
  have h: "outputsWKC (cfg_group example_env 0) = 2 \<and> inputsWKC (cfg_group example_env 0) = 3"
    by (simp add: example_env_def example_group_def)
  have x: "x_wkc (exchange_of 6 0x0040) = 6"
    by (simp add: exchange_of_def)
  show ?thesis
    using h x expected_working_counter [of example_env initial_globals _ _ _ _ "exchange_of 6 0x0040" 1]
    by blast
qed

section \<open>The operating mode is written once\<close>

lemma set_upt_cycles: "set [1..<10001] = {1..10000::nat}"
  by auto

lemma operational_opmode:
  "filter is_Set_OpMode (new_events s (operational env s)) =
     (if \<exists>i\<in>{1..10000}. accepted s (cyc_exch env i) then [Set_OpMode 9] else [])"
proof -
  let ?t = "(printf M_Operational_reached s)\<lparr>inOP := True, loc_j := 0\<rparr>"
  let ?u = "cyclic_loop (cyc_exch env) ?t"
  have t: "trace ?t = trace s @ [Printf M_Operational_reached]" "loc_j ?t = 0"
    "expectedWKC ?t = expectedWKC s"
    by (simp_all add: step_defs)
  have acc: "\<And>x. accepted ?t x = accepted s x"
    by (simp add: accepted_def t)
  have pu: "prefix (trace ?t) (trace ?u)"
    unfolding cyclic_loop_def by (rule cycles_frame)
  have "operational env s = ?u\<lparr>inOP := False\<rparr>"
    by (simp add: operational_def Let_def)
  then have "new_events s (operational env s) = new_events s ?u"
    by (simp add: new_events_def)
  also have "\<dots> = new_events s ?t @ new_events ?t ?u"
    by (rule new_events_append) (simp add: t, rule pu)
  also have "new_events s ?t = [Printf M_Operational_reached]"
    by (simp add: new_events_def t)
  finally have "filter is_Set_OpMode (new_events s (operational env s)) =
      filter is_Set_OpMode (new_events ?t (cycles (cyc_exch env) [1..<10001] ?t))"
    by (simp add: cyclic_loop_def)
  also have "\<dots> = (if \<exists>i\<in>set [1..<10001]. accepted ?t (cyc_exch env i) then [Set_OpMode 9] else [])"
    by (rule cycles_opmode) (simp add: t)
  finally show ?thesis
    unfolding acc set_upt_cycles .
qed

lemma OpMode_dsm: "OpMode (out_somanet_1 (drive_state_machine s)) = OpMode (out_somanet_1 s)"
  using dsm_cases [of s] by (auto simp: step_defs)

lemma OpMode_accepted_cycle:
  "OpMode (out_somanet_1 (accepted_cycle i s)) =
     (if loc_j s = 0 then 9 else OpMode (out_somanet_1 s))"
  by (simp add: accepted_cycle_def print_status_def Let_def OpMode_dsm step_defs)

lemma OpMode_cycle:
  "OpMode (out_somanet_1 (cycle x i s)) =
     (if accepted s x \<and> loc_j s = 0 then 9 else OpMode (out_somanet_1 s))"
  by (cases "x_wkc x < expectedWKC s")
     (simp_all add: cycle_degraded cycle_accepted OpMode_accepted_cycle exchanged_frame
        osal_usleep_def emit_def accepted_def)

lemma OpMode_cycles:
  "loc_j s = 0 \<Longrightarrow>
   OpMode (out_somanet_1 (cycles xs is s)) =
     (if \<exists>k\<in>set is. accepted s (xs k) then 9 else OpMode (out_somanet_1 s))"
proof (induction "is" rule: rev_induct)
  case Nil
  then show ?case by (simp add: cycles_Nil)
next
  case (snoc i "is")
  let ?t = "cycles xs is s"
  have acc: "\<And>x. accepted ?t x = accepted s x"
    by (simp add: accepted_def cycles_frame)
  have j: "loc_j ?t = 0 \<longleftrightarrow> \<not> (\<exists>k\<in>set is. accepted s (xs k))"
    using snoc.prems by (simp add: cycles_frame filter_empty_conv)
  show ?case
    using snoc j by (auto simp: cycles_snoc OpMode_cycle acc)
qed

lemma operational_OpMode:
  "OpMode (out_somanet_1 (operational env s)) =
     (if \<exists>i\<in>{1..10000}. accepted s (cyc_exch env i) then 9 else OpMode (out_somanet_1 s))"
proof -
  let ?t = "(printf M_Operational_reached s)\<lparr>inOP := True, loc_j := 0\<rparr>"
  have t: "loc_j ?t = 0" "expectedWKC ?t = expectedWKC s"
    "OpMode (out_somanet_1 ?t) = OpMode (out_somanet_1 s)"
    by (simp_all add: step_defs)
  have acc: "\<And>x. accepted ?t x = accepted s x"
    by (simp add: accepted_def t)
  have "OpMode (out_somanet_1 (operational env s)) =
      OpMode (out_somanet_1 (cycles (cyc_exch env) [1..<10001] ?t))"
    by (simp add: operational_def Let_def cyclic_loop_def)
  also have "\<dots> = (if \<exists>i\<in>set [1..<10001]. accepted ?t (cyc_exch env i) then 9
      else OpMode (out_somanet_1 ?t))"
    by (rule OpMode_cycles) (rule t)
  finally show ?thesis
    unfolding acc set_upt_cycles t .
qed

text \<open>
  Claim C3. In the operational branch, whatever the exchanges return, the stores into
  \<open>OpMode\<close> are: one store of 9 if some cycle of the 10000 is accepted, none otherwise;
  accordingly the \<open>OpMode\<close> field of the output image is 9 after the branch in the first
  case and what it was in the second. For a loop entered with \<open>j = 0\<close> and any cycles
  \<open>is\<close> already run, the next cycle \<open>i\<close> stores 9 into \<open>OpMode\<close> exactly when it is
  accepted and none before it was, and that is exactly the cycle that takes \<open>j\<close> from
  0 to 1; the field is 9 after that cycle and every other cycle leaves the field as it
  found it.
\<close>

theorem opmode_written_exactly_once:
  "filter is_Set_OpMode (new_events s (operational env s)) =
     (if \<exists>i\<in>{1..10000}. accepted s (cyc_exch env i) then [Set_OpMode 9] else [])
   \<and> OpMode (out_somanet_1 (operational env s)) =
     (if \<exists>i\<in>{1..10000}. accepted s (cyc_exch env i) then 9 else OpMode (out_somanet_1 s))
   \<and> (loc_j s = 0 \<longrightarrow>
        filter is_Set_OpMode (new_events s (cycles xs is s)) =
          (if \<exists>k\<in>set is. accepted s (xs k) then [Set_OpMode 9] else [])
        \<and> filter is_Set_OpMode (new_events (cycles xs is s) (cycle (xs i) i (cycles xs is s))) =
          (if accepted s (xs i) \<and> (\<forall>k\<in>set is. \<not> accepted s (xs k)) then [Set_OpMode 9] else [])
        \<and> ((loc_j (cycles xs is s) = 0 \<and> loc_j (cycle (xs i) i (cycles xs is s)) = 1)
             \<longleftrightarrow> (accepted s (xs i) \<and> (\<forall>k\<in>set is. \<not> accepted s (xs k))))
        \<and> OpMode (out_somanet_1 (cycles xs is s)) =
          (if \<exists>k\<in>set is. accepted s (xs k) then 9 else OpMode (out_somanet_1 s))
        \<and> OpMode (out_somanet_1 (cycle (xs i) i (cycles xs is s))) =
          (if accepted s (xs i) \<and> (\<forall>k\<in>set is. \<not> accepted s (xs k)) then 9
           else OpMode (out_somanet_1 (cycles xs is s))))"
proof -
  let ?t = "cycles xs is s"
  have acc: "\<And>x. accepted ?t x = accepted s x"
    by (simp add: accepted_def cycles_frame)
  have j: "loc_j s = 0 \<Longrightarrow> loc_j ?t = 0 \<longleftrightarrow> (\<forall>k\<in>set is. \<not> accepted s (xs k))"
    by (simp add: cycles_frame filter_empty_conv)
  have a: "loc_j s = 0 \<longrightarrow> filter is_Set_OpMode (new_events s (cycles xs is s)) =
          (if \<exists>k\<in>set is. accepted s (xs k) then [Set_OpMode 9] else [])"
    by (simp add: cycles_opmode)
  have b: "loc_j s = 0 \<longrightarrow>
      filter is_Set_OpMode (new_events ?t (cycle (xs i) i ?t)) =
          (if accepted s (xs i) \<and> (\<forall>k\<in>set is. \<not> accepted s (xs k)) then [Set_OpMode 9] else [])"
    using j by (simp add: cycle_events acc)
  have c: "loc_j s = 0 \<longrightarrow> ((loc_j ?t = 0 \<and> loc_j (cycle (xs i) i ?t) = 1)
             \<longleftrightarrow> (accepted s (xs i) \<and> (\<forall>k\<in>set is. \<not> accepted s (xs k))))"
    using j by (auto simp: cycle_frame acc)
  have d: "loc_j s = 0 \<longrightarrow> OpMode (out_somanet_1 ?t) =
          (if \<exists>k\<in>set is. accepted s (xs k) then 9 else OpMode (out_somanet_1 s))"
    by (simp add: OpMode_cycles)
  have e: "loc_j s = 0 \<longrightarrow> OpMode (out_somanet_1 (cycle (xs i) i ?t)) =
          (if accepted s (xs i) \<and> (\<forall>k\<in>set is. \<not> accepted s (xs k)) then 9
           else OpMode (out_somanet_1 ?t))"
    using j by (simp add: OpMode_cycle acc)
  from operational_opmode [of s env] operational_OpMode [of env s] a b c d e
  show ?thesis by blast
qed

theorem opmode_written_exactly_once_witness:
  "loc_j initial_globals = 0
   \<and> filter is_Set_OpMode (new_events initial_globals
        (cycles (\<lambda>i. exchange_of (int i - 2) 0) [1, 2, 3] initial_globals)) = [Set_OpMode 9]
   \<and> filter is_Set_OpMode (new_events (cycles (\<lambda>i. exchange_of (int i - 2) 0) [1] initial_globals)
        (cycle (exchange_of 0 0) 2 (cycles (\<lambda>i. exchange_of (int i - 2) 0) [1] initial_globals)))
       = [Set_OpMode 9]
   \<and> filter is_Set_OpMode (new_events (cycles (\<lambda>i. exchange_of (int i - 2) 0) [1, 2] initial_globals)
        (cycle (exchange_of 1 0) 3 (cycles (\<lambda>i. exchange_of (int i - 2) 0) [1, 2] initial_globals)))
       = []
   \<and> OpMode (out_somanet_1 (cycles (\<lambda>i. exchange_of (int i - 2) 0) [1] initial_globals)) = 0
   \<and> OpMode (out_somanet_1 (cycles (\<lambda>i. exchange_of (int i - 2) 0) [1, 2, 3] initial_globals)) = 9
   \<and> OpMode (out_somanet_1 (operational example_env initial_globals)) = 9"
proof -
  have h: "loc_j initial_globals = 0"
    by (simp add: initial_globals_def)
  have e: "expectedWKC initial_globals = 0" "OpMode (out_somanet_1 initial_globals) = 0"
    by (simp_all add: initial_globals_def zero_outputs_def)
  have x: "\<And>i. x_wkc (cyc_exch example_env i) = 7"
    by (simp add: example_env_def exchange_of_def)
  have some: "\<exists>i\<in>{1..10000}. accepted initial_globals (cyc_exch example_env i)"
    by (rule bexI [of _ 1]) (simp_all add: accepted_def e x)
  have "OpMode (out_somanet_1 (operational example_env initial_globals)) =
     (if \<exists>i\<in>{1..10000}. accepted initial_globals (cyc_exch example_env i) then 9
      else OpMode (out_somanet_1 initial_globals))"
    using opmode_written_exactly_once [of initial_globals example_env] by blast
  then have op: "OpMode (out_somanet_1 (operational example_env initial_globals)) = 9"
    using some by simp
  show ?thesis
    using h op
      opmode_written_exactly_once [of initial_globals _ "\<lambda>i. exchange_of (int i - 2) 0" "[1, 2, 3]"]
      opmode_written_exactly_once [of initial_globals _ "\<lambda>i. exchange_of (int i - 2) 0" "[1]" 2]
      opmode_written_exactly_once [of initial_globals _ "\<lambda>i. exchange_of (int i - 2) 0" "[1, 2]" 3]
    by (simp add: accepted_def e exchange_of_def)
qed

section \<open>The wait for the operational state and its failure\<close>

lemma fold_wait_attempt_frame:
  "trace (fold (wait_attempt env) ns s) = trace s @ concat (replicate (length ns) attempt_events)
   \<and> out_somanet_1 (fold (wait_attempt env) ns s) = out_somanet_1 s"
proof (induction ns arbitrary: s)
  case Nil
  then show ?case by simp
next
  case (Cons n ns)
  have "replicate (length ns) attempt_events @ [attempt_events]
      = attempt_events # replicate (length ns) attempt_events"
    by (simp add: replicate_append_same)
  then show ?case
    using Cons [of "wait_attempt env n s"] by (simp add: wait_attempt_frame attempt_events_def)
qed

lemma op_wait_never_operational:
  "\<forall>m\<le>chk. wait_state env (n + m) \<noteq> EC_STATE_OPERATIONAL \<Longrightarrow>
   op_wait env chk n s = fold (wait_attempt env) [n..<n + Suc chk] s"
proof (induction chk arbitrary: n s)
  case 0
  then show ?case by simp
next
  case (Suc chk)
  have now: "wait_state env n \<noteq> EC_STATE_OPERATIONAL"
    using Suc.prems by (metis add.right_neutral le0)
  have later: "\<forall>m\<le>chk. wait_state env (Suc n + m) \<noteq> EC_STATE_OPERATIONAL"
    using Suc.prems by (metis Suc_le_mono add_Suc_shift)
  have "[n..<n + Suc (Suc chk)] = n # [Suc n..<Suc n + Suc chk]"
    by (simp add: upt_conv_Cons)
  then show ?case
    using Suc.IH [OF later] now by (simp add: wait_attempt_frame Let_def del: upt_Suc)
qed

lemma fold_slave_diag:
  "fold slave_diag is s =
     s\<lparr>trace := trace s @
          map (\<lambda>i. Printf (M_Slave_State i (state (ec_slave s i)) (ALstatuscode (ec_slave s i))))
            (filter (\<lambda>i. state (ec_slave s i) \<noteq> EC_STATE_OPERATIONAL) is)\<rparr>"
proof (induction "is" arbitrary: s)
  case Nil
  then show ?case by simp
next
  case (Cons i "is")
  show ?case
    unfolding fold_simps Cons by (simp add: slave_diag_def step_defs)
qed

lemma not_operational_trace:
  "not_operational env s =
     (ec_readstate (rd_state env) (rd_ALstatuscode env) (printf M_Not_all_operational s))
     \<lparr>trace := trace s @ [Printf M_Not_all_operational, Ec_readstate] @
          map (\<lambda>i. Printf (M_Slave_State i (rd_state env i) (rd_ALstatuscode env i)))
            (filter (\<lambda>i. rd_state env i \<noteq> EC_STATE_OPERATIONAL) [1..<Suc (ec_slavecount s)])\<rparr>"
proof -
  let ?t = "ec_readstate (rd_state env) (rd_ALstatuscode env) (printf M_Not_all_operational s)"
  have t: "ec_slavecount ?t = ec_slavecount s"
    "trace ?t = trace s @ [Printf M_Not_all_operational, Ec_readstate]"
    "\<And>i. i \<le> ec_slavecount s \<Longrightarrow> state (ec_slave ?t i) = rd_state env i"
    "\<And>i. i \<le> ec_slavecount s \<Longrightarrow> ALstatuscode (ec_slave ?t i) = rd_ALstatuscode env i"
    by (simp_all add: ec_readstate_def step_defs)
  have f: "filter (\<lambda>i. state (ec_slave ?t i) \<noteq> EC_STATE_OPERATIONAL) [1..<Suc (ec_slavecount s)]
      = filter (\<lambda>i. rd_state env i \<noteq> EC_STATE_OPERATIONAL) [1..<Suc (ec_slavecount s)]"
    by (rule filter_cong) (auto simp: t simp del: upt_Suc)
  have m: "map (\<lambda>i. Printf (M_Slave_State i (state (ec_slave ?t i)) (ALstatuscode (ec_slave ?t i))))
            (filter (\<lambda>i. rd_state env i \<noteq> EC_STATE_OPERATIONAL) [1..<Suc (ec_slavecount s)])
      = map (\<lambda>i. Printf (M_Slave_State i (rd_state env i) (rd_ALstatuscode env i)))
            (filter (\<lambda>i. rd_state env i \<noteq> EC_STATE_OPERATIONAL) [1..<Suc (ec_slavecount s)])"
    by (rule map_cong) (auto simp: t simp del: upt_Suc)
  have "not_operational env s = fold slave_diag [1..<Suc (ec_slavecount s)] ?t"
    by (simp add: not_operational_def Let_def t del: upt_Suc)
  then show ?thesis
    unfolding fold_slave_diag f m by (simp add: t del: upt_Suc)
qed


lemma op_wait_state:
  "\<exists>m\<le>chk. state (ec_slave (op_wait env chk n s) 0) = wait_state env (n + m)"
proof (induction chk arbitrary: n s)
  case 0
  then show ?case by (simp add: wait_attempt_frame)
next
  case (Suc chk)
  show ?case
  proof (cases "wait_state env n = EC_STATE_OPERATIONAL")
    case True
    then have "state (ec_slave (op_wait env (Suc chk) n s) 0) = wait_state env (n + 0)"
      by (simp add: wait_attempt_frame Let_def)
    then show ?thesis by blast
  next
    case False
    obtain m where m: "m \<le> chk"
      "state (ec_slave (op_wait env chk (Suc n) (wait_attempt env n s)) 0) = wait_state env (Suc n + m)"
      using Suc [of "Suc n" "wait_attempt env n s"] by blast
    have "state (ec_slave (op_wait env (Suc chk) n s) 0) = wait_state env (n + Suc m)"
      using False m by (simp add: wait_attempt_frame Let_def)
    then show ?thesis using m(1) by (metis Suc_le_mono)
  qed
qed

lemma startup_frame:
  "trace (startup env s) = trace s @
     [Printf (M_slaves_found (ec_slavecount s)), Ec_config_map, Ec_configdc,
      Printf M_Slaves_mapped, Ec_statecheck 0 EC_STATE_SAFE_OP, Printf M_segments,
      Printf M_Request_operational,
      Printf (M_Calculated_workcounter
        (uint (outputsWKC (cfg_group env 0)) * 2 + uint (inputsWKC (cfg_group env 0)))),
      Ec_send_processdata, Ec_receive_processdata, Ec_writestate 0 EC_STATE_OPERATIONAL]"
  "ec_slavecount (startup env s) = ec_slavecount s"
  "out_somanet_1 (startup env s) = out_somanet_1 s"
  "inOP (startup env s) = inOP s"
  "loc_j (startup env s) = loc_j s"
  by (simp_all add: startup_def Let_def step_defs stack_defs)

lemma op_wait_loc_j: "loc_j (op_wait env chk n s) = loc_j s"
  by (induction chk arbitrary: n s) (simp_all add: wait_attempt_def Let_def step_defs stack_defs)

lemma request_init_frame:
  "trace (request_init s) = trace s @ [Printf M_Request_init, Ec_writestate 0 EC_STATE_INIT]"
  "out_somanet_1 (request_init s) = out_somanet_1 s"
  "inOP (request_init s) = inOP s"
  "loc_j (request_init s) = loc_j s"
  by (simp_all add: request_init_def Let_def step_defs stack_defs)

lemma not_operational_frame:
  "out_somanet_1 (not_operational env s) = out_somanet_1 s"
  "inOP (not_operational env s) = inOP s"
  "loc_j (not_operational env s) = loc_j s"
  "trace (not_operational env s) = trace s @ [Printf M_Not_all_operational, Ec_readstate] @
          map (\<lambda>i. Printf (M_Slave_State i (rd_state env i) (rd_ALstatuscode env i)))
            (filter (\<lambda>i. rd_state env i \<noteq> EC_STATE_OPERATIONAL) [1..<Suc (ec_slavecount s)])"
  unfolding not_operational_trace by (simp_all add: ec_readstate_def step_defs del: upt_Suc)

text \<open>
  Claim C5. When the stack never reports the operational state for the group during
  the wait, the body of the \<open>do ... while\<close> runs 201 times, the first attempt and the
  200 retries that \<open>chk = 200\<close> allows, and \<open>simpletest\<close> then does exactly this: it
  prints that not all devices are operational, reads the states, prints one line for
  each device \<open>1 .. ec_slavecount\<close> whose state is not operational and none for the
  others, requests the initial state for the group and closes. No cycle of the cyclic
  loop runs: the trace has no store into the output image and no status line, the
  output image and \<open>j\<close> are untouched and \<open>inOP\<close> is false.
\<close>

theorem operational_timeout:
  assumes never: "\<forall>n\<le>200. wait_state env n \<noteq> EC_STATE_OPERATIONAL"
    and init: "ec_init_ret env \<noteq> 0" and config: "ec_config_init_ret env > 0"
  shows "op_wait env 200 0 s = fold (wait_attempt env) [0..<201] s
    \<and> new_events s (simpletest env s) =
        [Printf M_Starting_simple_test, Ec_init, Printf M_ec_init_succeeded, Ec_config_init,
         Printf (M_slaves_found (cfg_slavecount env)), Ec_config_map, Ec_configdc,
         Printf M_Slaves_mapped, Ec_statecheck 0 EC_STATE_SAFE_OP, Printf M_segments,
         Printf M_Request_operational,
         Printf (M_Calculated_workcounter
           (uint (outputsWKC (cfg_group env 0)) * 2 + uint (inputsWKC (cfg_group env 0)))),
         Ec_send_processdata, Ec_receive_processdata, Ec_writestate 0 EC_STATE_OPERATIONAL]
        @ concat (replicate 201 attempt_events)
        @ [Printf M_Not_all_operational, Ec_readstate]
        @ map (\<lambda>i. Printf (M_Slave_State i (rd_state env i) (rd_ALstatuscode env i)))
            (filter (\<lambda>i. rd_state env i \<noteq> EC_STATE_OPERATIONAL) [1..<Suc (cfg_slavecount env)])
        @ [Printf M_Request_init, Ec_writestate 0 EC_STATE_INIT,
           Printf M_End_simple_test, Ec_close]
    \<and> out_somanet_1 (simpletest env s) = out_somanet_1 s
    \<and> loc_j (simpletest env s) = loc_j s
    \<and> inOP (simpletest env s) = False"
proof -
  define s5 where "s5 = emit Ec_config_init
       ((printf M_ec_init_succeeded (emit Ec_init (printf M_Starting_simple_test
           (s\<lparr>needlf := False, inOP := False\<rparr>))))
        \<lparr>ec_slavecount := cfg_slavecount env, ec_slave := cfg_slave env\<rparr>)"
  define s6 where "s6 = startup env s5"
  define s7 where "s7 = op_wait env 200 0 s6"
  define s8 where "s8 = not_operational env s7"
  define s9 where "s9 = request_init s8"
  have never': "\<forall>m\<le>200. wait_state env (0 + m) \<noteq> EC_STATE_OPERATIONAL"
    using never by simp
  have w: "\<And>t. op_wait env 200 0 t = fold (wait_attempt env) [0..<201] t"
    using op_wait_never_operational [OF never'] by simp
  have s5: "trace s5 = trace s @
      [Printf M_Starting_simple_test, Ec_init, Printf M_ec_init_succeeded, Ec_config_init]"
    "ec_slavecount s5 = cfg_slavecount env" "out_somanet_1 s5 = out_somanet_1 s"
    "inOP s5 = False" "loc_j s5 = loc_j s"
    by (simp_all add: s5_def step_defs)
  have s6: "trace s6 = trace s5 @
     [Printf (M_slaves_found (cfg_slavecount env)), Ec_config_map, Ec_configdc,
      Printf M_Slaves_mapped, Ec_statecheck 0 EC_STATE_SAFE_OP, Printf M_segments,
      Printf M_Request_operational,
      Printf (M_Calculated_workcounter
        (uint (outputsWKC (cfg_group env 0)) * 2 + uint (inputsWKC (cfg_group env 0)))),
      Ec_send_processdata, Ec_receive_processdata, Ec_writestate 0 EC_STATE_OPERATIONAL]"
    "ec_slavecount s6 = cfg_slavecount env" "out_somanet_1 s6 = out_somanet_1 s"
    "inOP s6 = False" "loc_j s6 = loc_j s"
    by (simp_all add: s6_def startup_frame s5)
  have s7: "trace s7 = trace s6 @ concat (replicate 201 attempt_events)"
    "ec_slavecount s7 = cfg_slavecount env" "out_somanet_1 s7 = out_somanet_1 s"
    "inOP s7 = False" "loc_j s7 = loc_j s"
    using fold_wait_attempt_frame [of env "[0..<201]" s6]
    by (simp_all add: s7_def op_wait_frame op_wait_loc_j s6 w [symmetric])
  obtain m where "m \<le> 200" "state (ec_slave s7 0) = wait_state env (0 + m)"
    unfolding s7_def using op_wait_state [of 200 env 0 s6] by blast
  then have below: "state (ec_slave s7 0) \<noteq> EC_STATE_OPERATIONAL"
    using never by simp
  have s8: "trace s8 = trace s7 @ [Printf M_Not_all_operational, Ec_readstate] @
          map (\<lambda>i. Printf (M_Slave_State i (rd_state env i) (rd_ALstatuscode env i)))
            (filter (\<lambda>i. rd_state env i \<noteq> EC_STATE_OPERATIONAL) [1..<Suc (cfg_slavecount env)])"
    "out_somanet_1 s8 = out_somanet_1 s" "inOP s8 = False" "loc_j s8 = loc_j s"
    by (simp_all add: s8_def not_operational_frame s7 del: upt_Suc)
  have s9: "trace s9 = trace s8 @ [Printf M_Request_init, Ec_writestate 0 EC_STATE_INIT]"
    "out_somanet_1 s9 = out_somanet_1 s" "inOP s9 = False" "loc_j s9 = loc_j s"
    by (simp_all add: s9_def request_init_frame s8)
  have conf: "configured env s5 = s9"
    using below by (simp add: configured_def Let_def s6_def s7_def s8_def s9_def)
  have "simpletest env s =
      (let s6 = (if ec_config_init_ret env > 0 then configured env s5
                 else printf M_No_slaves_found s5)
       in emit Ec_close (printf M_End_simple_test s6))"
    using init unfolding simpletest_def s5_def Let_def by simp
  then have sim: "simpletest env s = emit Ec_close (printf M_End_simple_test s9)"
    using config conf by simp
  have tr: "trace (simpletest env s) = trace s @
        ([Printf M_Starting_simple_test, Ec_init, Printf M_ec_init_succeeded, Ec_config_init,
         Printf (M_slaves_found (cfg_slavecount env)), Ec_config_map, Ec_configdc,
         Printf M_Slaves_mapped, Ec_statecheck 0 EC_STATE_SAFE_OP, Printf M_segments,
         Printf M_Request_operational,
         Printf (M_Calculated_workcounter
           (uint (outputsWKC (cfg_group env 0)) * 2 + uint (inputsWKC (cfg_group env 0)))),
         Ec_send_processdata, Ec_receive_processdata, Ec_writestate 0 EC_STATE_OPERATIONAL]
        @ concat (replicate 201 attempt_events)
        @ [Printf M_Not_all_operational, Ec_readstate]
        @ map (\<lambda>i. Printf (M_Slave_State i (rd_state env i) (rd_ALstatuscode env i)))
            (filter (\<lambda>i. rd_state env i \<noteq> EC_STATE_OPERATIONAL) [1..<Suc (cfg_slavecount env)])
        @ [Printf M_Request_init, Ec_writestate 0 EC_STATE_INIT,
           Printf M_End_simple_test, Ec_close])"
    unfolding sim by (simp add: emit_def printf_def s9 s8 s7 s6 s5 del: upt_Suc)
  have ev: "new_events s (simpletest env s) = drop (length (trace s)) (trace (simpletest env s))"
    by (simp add: new_events_def)
  have rest: "out_somanet_1 (simpletest env s) = out_somanet_1 s"
    "loc_j (simpletest env s) = loc_j s" "inOP (simpletest env s) = False"
    unfolding sim by (simp_all add: emit_def printf_def s9)
  show ?thesis
    unfolding ev tr using w [of s] rest by simp
qed


theorem operational_timeout_witness:
  "wait_state example_env 200 \<noteq> EC_STATE_OPERATIONAL
   \<and> ec_init_ret example_env \<noteq> 0 \<and> 0 < ec_config_init_ret example_env
   \<and> op_wait example_env 200 0 initial_globals
        = fold (wait_attempt example_env) [0..<201] initial_globals
   \<and> inOP (simpletest example_env initial_globals) = False
   \<and> out_somanet_1 (simpletest example_env initial_globals) = out_somanet_1 initial_globals
   \<and> new_events initial_globals (simpletest example_env initial_globals) =
        [Printf M_Starting_simple_test, Ec_init, Printf M_ec_init_succeeded, Ec_config_init,
         Printf (M_slaves_found 1), Ec_config_map, Ec_configdc,
         Printf M_Slaves_mapped, Ec_statecheck 0 EC_STATE_SAFE_OP, Printf M_segments,
         Printf M_Request_operational, Printf (M_Calculated_workcounter 7),
         Ec_send_processdata, Ec_receive_processdata, Ec_writestate 0 EC_STATE_OPERATIONAL]
        @ concat (replicate 201 attempt_events)
        @ [Printf M_Not_all_operational, Ec_readstate, Printf (M_Slave_State 1 0x04 0),
           Printf M_Request_init, Ec_writestate 0 EC_STATE_INIT,
           Printf M_End_simple_test, Ec_close]"
proof -
  have never: "\<forall>n\<le>200. wait_state example_env n \<noteq> EC_STATE_OPERATIONAL"
    by (simp add: example_env_def EC_STATE_OPERATIONAL_def)
  have init: "ec_init_ret example_env \<noteq> 0" and config: "ec_config_init_ret example_env > 0"
    by (simp_all add: example_env_def)
  have vals: "cfg_slavecount example_env = 1" "rd_state example_env = (\<lambda>k. 0x04)"
    "rd_ALstatuscode example_env = (\<lambda>k. 0)"
    "uint (outputsWKC (cfg_group example_env 0)) * 2 + uint (inputsWKC (cfg_group example_env 0)) = 7"
    by (simp_all add: example_env_def example_group_def)
  have ne: "EC_STATE_OPERATIONAL \<noteq> 4" "wait_state example_env 200 \<noteq> EC_STATE_OPERATIONAL"
    by (simp_all add: example_env_def EC_STATE_OPERATIONAL_def)
  show ?thesis
    using ne init config operational_timeout [OF never init config, of initial_globals]
    unfolding vals by simp
qed

section \<open>Lemmas on the supervisor\<close>

lemmas chk_defs = ec_reconfig_slave_def ec_recover_slave_def

lemma recover_action_frame:
  "ec_slave (recover_action e k s) = (ec_slave s)(k := recover_entry e k (ec_slave s k))"
  "ec_group (recover_action e k s) = ec_group s"
  "ec_slavecount (recover_action e k s) = ec_slavecount s"
  "prefix (trace s) (trace (recover_action e k s))"
  by (auto simp: recover_action_def recover_entry_def Let_def step_defs stack_defs chk_defs)

lemma lost_action_frame:
  "ec_slave (lost_action e k s) = (ec_slave s)(k := lost_entry e k (ec_slave s k))"
  "ec_group (lost_action e k s) = ec_group s"
  "ec_slavecount (lost_action e k s) = ec_slavecount s"
  "prefix (trace s) (trace (lost_action e k s))"
  by (auto simp: lost_action_def lost_entry_def Let_def step_defs stack_defs chk_defs)

lemma check_slave_entry:
  "ec_slave (check_slave e k s) = (ec_slave s)(k := entry_after e k (ec_slave s k))"
  by (simp add: check_slave_def entry_after_def needs_check_def Let_def
      recover_action_frame lost_action_frame set_docheckstate_def)

lemma check_slave_frame:
  "docheckstate (ec_group (check_slave e k s) (unat currentgroup)) =
     (docheckstate (ec_group s (unat currentgroup)) \<or> needs_check (ec_slave s k))"
  "ec_slavecount (check_slave e k s) = ec_slavecount s"
  by (auto simp: check_slave_def needs_check_def Let_def
      recover_action_frame lost_action_frame set_docheckstate_def)

lemma check_slave_group:
  "ec_group (check_slave e k s) g =
     (if g = unat currentgroup
      then (ec_group s g)\<lparr>docheckstate := docheckstate (ec_group s g) \<or> needs_check (ec_slave s k)\<rparr>
      else ec_group s g)"
  by (cases "needs_check (ec_slave s k)")
     (auto simp: check_slave_def needs_check_def Let_def
      recover_action_frame lost_action_frame set_docheckstate_def)

lemma check_slave_prefix: "prefix (trace s) (trace (check_slave e k s))"
proof -
  let ?t = "if group (ec_slave s k) = currentgroup \<and> state (ec_slave s k) \<noteq> EC_STATE_OPERATIONAL
            then recover_action e k (set_docheckstate True s) else s"
  have "prefix (trace (set_docheckstate True s)) (trace (recover_action e k (set_docheckstate True s)))"
    by (rule recover_action_frame)
  then have "prefix (trace s) (trace ?t)"
    by (simp add: set_docheckstate_def)
  also have "prefix (trace ?t) (trace (lost_action e k ?t))"
    by (rule lost_action_frame)
  finally show ?thesis by (simp add: check_slave_def Let_def)
qed

lemma fold_check_slave:
  "distinct ks \<Longrightarrow>
   ec_slave (fold (check_slave e) ks s) =
     (\<lambda>k. if k \<in> set ks then entry_after e k (ec_slave s k) else ec_slave s k)
   \<and> ec_slavecount (fold (check_slave e) ks s) = ec_slavecount s
   \<and> prefix (trace s) (trace (fold (check_slave e) ks s))
   \<and> (\<forall>g. ec_group (fold (check_slave e) ks s) g =
        (if g = unat currentgroup
         then (ec_group s g)\<lparr>docheckstate := docheckstate (ec_group s g)
                \<or> (\<exists>k\<in>set ks. needs_check (ec_slave s k))\<rparr>
         else ec_group s g))"
proof (induction ks arbitrary: s)
  case Nil
  then show ?case by simp
next
  case (Cons k ks)
  let ?t = "check_slave e k s"
  have ih: "ec_slave (fold (check_slave e) ks ?t) =
     (\<lambda>k. if k \<in> set ks then entry_after e k (ec_slave ?t k) else ec_slave ?t k)"
    "ec_slavecount (fold (check_slave e) ks ?t) = ec_slavecount ?t"
    "prefix (trace ?t) (trace (fold (check_slave e) ks ?t))"
    "\<And>g. ec_group (fold (check_slave e) ks ?t) g =
        (if g = unat currentgroup
         then (ec_group ?t g)\<lparr>docheckstate := docheckstate (ec_group ?t g)
                \<or> (\<exists>k\<in>set ks. needs_check (ec_slave ?t k))\<rparr>
         else ec_group ?t g)"
    using Cons.IH [of ?t] Cons.prems by simp_all
  have other: "\<And>k'. k' \<in> set ks \<Longrightarrow> ec_slave ?t k' = ec_slave s k'"
    using Cons.prems by (auto simp: check_slave_entry)
  have a: "ec_slave (fold (check_slave e) (k # ks) s) =
     (\<lambda>k'. if k' \<in> set (k # ks) then entry_after e k' (ec_slave s k') else ec_slave s k')"
    unfolding fold_simps ih(1) using Cons.prems
    by (intro ext) (auto simp: check_slave_entry)
  have b: "ec_slavecount (fold (check_slave e) (k # ks) s) = ec_slavecount s"
    by (simp add: ih(2) check_slave_frame)
  have c: "prefix (trace s) (trace (fold (check_slave e) (k # ks) s))"
    using check_slave_prefix [of s e k] ih(3) by (auto intro: prefix_order.trans)
  have ex: "(\<exists>k'\<in>set ks. needs_check (ec_slave ?t k')) = (\<exists>k'\<in>set ks. needs_check (ec_slave s k'))"
    using other by auto
  have d: "\<forall>g. ec_group (fold (check_slave e) (k # ks) s) g =
        (if g = unat currentgroup
         then (ec_group s g)\<lparr>docheckstate := docheckstate (ec_group s g)
                \<or> (\<exists>k\<in>set (k # ks). needs_check (ec_slave s k))\<rparr>
         else ec_group s g)"
    by (auto simp: ih(4) ex check_slave_group)
  from a b c d show ?case by blast
qed


lemmas state_defs = EC_STATE_NONE_def EC_STATE_INIT_def EC_STATE_SAFE_OP_def
  EC_STATE_OPERATIONAL_def EC_STATE_ACK_def EC_STATE_ERROR_def

lemmas entry_defs = entry_after_def lost_entry_def recover_entry_def needs_check_def

lemma entry_after_keeps:
  "group (entry_after e k r) = group r"
  "ALstatuscode (entry_after e k r) = ALstatuscode r"
  by (simp_all add: entry_defs)

lemma entry_after_reread:
  "(entry_after e k r)\<lparr>state := state r, ALstatuscode := ALstatuscode r\<rparr>
     = r\<lparr>islost := islost (entry_after e k r)\<rparr>"
  by (simp add: entry_defs)

lemma entry_after_islost_idem:
  "islost (entry_after e k (r\<lparr>islost := islost (entry_after e k r)\<rparr>))
     = islost (entry_after e k r)"
  by (auto simp: entry_defs state_defs word_gt_0)

lemma entry_after_idem:
  "stable e \<Longrightarrow> state r = rs_state e k \<Longrightarrow>
   entry_after e k (r\<lparr>islost := islost (entry_after e k r)\<rparr>) = entry_after e k r"
  by (auto simp: entry_defs state_defs word_gt_0 stable_def)


lemma check_slave_writestate:
  "Ec_writestate k' q \<in> set (new_events s (check_slave e k s)) \<Longrightarrow>
   k' = k \<and> needs_check (ec_slave s k)
   \<and> ((state (ec_slave s k) = EC_STATE_SAFE_OP + EC_STATE_ERROR \<and> q = EC_STATE_SAFE_OP + EC_STATE_ACK)
      \<or> (state (ec_slave s k) = EC_STATE_SAFE_OP \<and> q = EC_STATE_OPERATIONAL))"
  by (auto simp: check_slave_def recover_action_def lost_action_def needs_check_def Let_def
      step_defs stack_defs chk_defs new_events_def split: if_splits)

lemma fold_check_slave_writestate:
  "distinct ks \<Longrightarrow> Ec_writestate k' q \<in> set (new_events s (fold (check_slave e) ks s)) \<Longrightarrow>
   k' \<in> set ks \<and> needs_check (ec_slave s k')
   \<and> ((state (ec_slave s k') = EC_STATE_SAFE_OP + EC_STATE_ERROR \<and> q = EC_STATE_SAFE_OP + EC_STATE_ACK)
      \<or> (state (ec_slave s k') = EC_STATE_SAFE_OP \<and> q = EC_STATE_OPERATIONAL))"
proof (induction ks arbitrary: s)
  case Nil
  then show ?case by (simp add: new_events_def)
next
  case (Cons k ks)
  let ?t = "check_slave e k s"
  have d: "distinct ks" "k \<notin> set ks" using Cons.prems(1) by simp_all
  have "new_events s (fold (check_slave e) ks ?t) =
      new_events s ?t @ new_events ?t (fold (check_slave e) ks ?t)"
    using fold_check_slave [OF d(1), of e ?t]
    by (intro new_events_append check_slave_prefix) simp
  then consider "Ec_writestate k' q \<in> set (new_events s ?t)"
    | "Ec_writestate k' q \<in> set (new_events ?t (fold (check_slave e) ks ?t))"
    using Cons.prems(2) by auto
  then show ?case
  proof cases
    case 1
    then show ?thesis using check_slave_writestate [of k' q s e k] by simp
  next
    case 2
    from Cons.IH [OF d(1) 2] have k': "k' \<in> set ks" and rest: "needs_check (ec_slave ?t k')
      \<and> ((state (ec_slave ?t k') = EC_STATE_SAFE_OP + EC_STATE_ERROR \<and> q = EC_STATE_SAFE_OP + EC_STATE_ACK)
        \<or> (state (ec_slave ?t k') = EC_STATE_SAFE_OP \<and> q = EC_STATE_OPERATIONAL))"
      by simp_all
    have "k' \<noteq> k" using k' d(2) by auto
    then have "ec_slave ?t k' = ec_slave s k'" by (simp add: check_slave_entry)
    then show ?thesis using k' rest by simp
  qed
qed


lemma sweep_frame:
  "ec_slavecount (sweep e s) = ec_slavecount s"
  "ec_slave (sweep e s) =
     (\<lambda>k. if 1 \<le> k \<and> k \<le> ec_slavecount s then entry_after e k (refreshed e k (ec_slave s k))
          else if k = 0 then refreshed e 0 (ec_slave s 0) else ec_slave s k)"
  "ec_group (sweep e s) =
     (\<lambda>g. if g = unat currentgroup
          then (ec_group s g)\<lparr>docheckstate :=
                 (\<exists>k\<in>{1..ec_slavecount s}. needs_check (refreshed e k (ec_slave s k)))\<rparr>
          else ec_group s g)"
  "prefix (trace s) (trace (sweep e s))"
  "Ec_readstate \<in> set (new_events s (sweep e s))"
  "Ec_writestate k q \<in> set (new_events s (sweep e s)) \<Longrightarrow>
     rs_state e k \<noteq> EC_STATE_OPERATIONAL
     \<and> ((rs_state e k = EC_STATE_SAFE_OP + EC_STATE_ERROR \<and> q = EC_STATE_SAFE_OP + EC_STATE_ACK)
        \<or> (rs_state e k = EC_STATE_SAFE_OP \<and> q = EC_STATE_OPERATIONAL))"
proof -
  define s3 where "s3 = ec_readstate (rs_state e) (rs_ALstatuscode e)
     (set_docheckstate False (if needlf s then printf M_newline (s\<lparr>needlf := False\<rparr>) else s))"
  define s4 where "s4 = fold (check_slave e) [1..<Suc (ec_slavecount s)] s3"
  have s3: "ec_slavecount s3 = ec_slavecount s"
    "ec_slave s3 = (\<lambda>k. if k \<le> ec_slavecount s then refreshed e k (ec_slave s k) else ec_slave s k)"
    "ec_group s3 = (\<lambda>g. if g = unat currentgroup then (ec_group s g)\<lparr>docheckstate := False\<rparr>
        else ec_group s g)"
    "trace s3 = trace s @ (if needlf s then [Printf M_newline] else []) @ [Ec_readstate]"
    by (auto simp: s3_def refreshed_def step_defs stack_defs)
  have sw: "sweep e s =
      (if \<not> docheckstate (ec_group s4 (unat currentgroup)) then printf M_OK_all_resumed s4 else s4)"
    unfolding sweep_def Let_def s4_def s3_def [symmetric] s3(1) ..
  have d: "distinct [1..<Suc (ec_slavecount s)]" by simp
  note f = fold_check_slave [OF d, of e s3, folded s4_def]
  have mem: "\<And>k. k \<in> set [1..<Suc (ec_slavecount s)] \<longleftrightarrow> 1 \<le> k \<and> k \<le> ec_slavecount s"
    by auto
  have s4: "ec_slavecount s4 = ec_slavecount s"
    "ec_slave s4 = (\<lambda>k. if 1 \<le> k \<and> k \<le> ec_slavecount s
          then entry_after e k (refreshed e k (ec_slave s k))
          else if k = 0 then refreshed e 0 (ec_slave s 0) else ec_slave s k)"
    "ec_group s4 = (\<lambda>g. if g = unat currentgroup
          then (ec_group s g)\<lparr>docheckstate :=
                 (\<exists>k\<in>{1..ec_slavecount s}. needs_check (refreshed e k (ec_slave s k)))\<rparr>
          else ec_group s g)"
    "prefix (trace s3) (trace s4)"
    using f unfolding mem
    by (auto simp: s3 fun_eq_iff atLeastLessThanSuc_atLeastAtMost simp del: upt_Suc)
  have p3: "prefix (trace s) (trace s3)" by (simp add: s3)
  have p4: "prefix (trace s) (trace s4)" using p3 s4(4) by (rule prefix_order.trans)
  have ne: "new_events s s4 = new_events s s3 @ new_events s3 s4"
    using p3 s4(4) by (rule new_events_append)
  have ev: "new_events s (sweep e s) = new_events s s3 @ new_events s3 s4 @
      (if \<not> docheckstate (ec_group s4 (unat currentgroup)) then [Printf M_OK_all_resumed] else [])"
  proof -
    have "new_events s (sweep e s) = new_events s s4 @ new_events s4 (sweep e s)"
      using p4 by (rule new_events_append) (simp add: sw step_defs)
    moreover have "new_events s4 (sweep e s) =
      (if \<not> docheckstate (ec_group s4 (unat currentgroup)) then [Printf M_OK_all_resumed] else [])"
      by (simp add: sw step_defs new_events_def)
    ultimately show ?thesis using ne by simp
  qed
  have e3: "new_events s s3 = (if needlf s then [Printf M_newline] else []) @ [Ec_readstate]"
    by (simp add: new_events_def s3)
  show "ec_slavecount (sweep e s) = ec_slavecount s"
    by (simp add: sw s4 step_defs)
  show "ec_slave (sweep e s) =
     (\<lambda>k. if 1 \<le> k \<and> k \<le> ec_slavecount s then entry_after e k (refreshed e k (ec_slave s k))
          else if k = 0 then refreshed e 0 (ec_slave s 0) else ec_slave s k)"
    using s4(2) by (simp add: sw step_defs)
  show "ec_group (sweep e s) =
     (\<lambda>g. if g = unat currentgroup
          then (ec_group s g)\<lparr>docheckstate :=
                 (\<exists>k\<in>{1..ec_slavecount s}. needs_check (refreshed e k (ec_slave s k)))\<rparr>
          else ec_group s g)"
    using s4(3) by (simp add: sw step_defs)
  show "prefix (trace s) (trace (sweep e s))"
    using p4 by (auto simp: sw step_defs intro: prefix_order.trans)
  show "Ec_readstate \<in> set (new_events s (sweep e s))"
    by (simp add: ev e3)
  show "rs_state e k \<noteq> EC_STATE_OPERATIONAL
     \<and> ((rs_state e k = EC_STATE_SAFE_OP + EC_STATE_ERROR \<and> q = EC_STATE_SAFE_OP + EC_STATE_ACK)
        \<or> (rs_state e k = EC_STATE_SAFE_OP \<and> q = EC_STATE_OPERATIONAL))"
    if w: "Ec_writestate k q \<in> set (new_events s (sweep e s))"
  proof -
    have "Ec_writestate k q \<in> set (new_events s3 (fold (check_slave e) [1..<Suc (ec_slavecount s)] s3))"
      using w by (simp add: ev e3 s4_def split: if_splits)
    from fold_check_slave_writestate [OF d this]
    show ?thesis
      unfolding mem by (auto simp: s3 refreshed_def needs_check_def)
  qed
qed

lemma recover_action_events_entry:
  "ec_slave t k = ec_slave s k \<Longrightarrow>
   new_events t (recover_action e k t) = new_events s (recover_action e k s)"
  by (simp add: recover_action_def Let_def step_defs stack_defs chk_defs new_events_def)

lemma lost_action_events_entry:
  "ec_slave t k = ec_slave s k \<Longrightarrow>
   new_events t (lost_action e k t) = new_events s (lost_action e k s)"
  by (simp add: lost_action_def Let_def step_defs stack_defs chk_defs new_events_def)

lemma check_slave_events:
  "new_events s (check_slave e k s) =
     (if needs_check (ec_slave s k)
      then new_events s (recover_action e k s)
        @ new_events (recover_action e k s) (lost_action e k (recover_action e k s))
      else new_events s (lost_action e k s))"
proof (cases "needs_check (ec_slave s k)")
  case False
  then have "check_slave e k s = lost_action e k s"
    by (auto simp: check_slave_def needs_check_def Let_def)
  then show ?thesis using False by simp
next
  case True
  let ?d = "set_docheckstate True s"
  let ?r = "recover_action e k ?d"
  have d: "trace ?d = trace s" "ec_slave ?d = ec_slave s"
    by (simp_all add: set_docheckstate_def)
  have c: "check_slave e k s = lost_action e k ?r"
    using True by (auto simp: check_slave_def needs_check_def Let_def)
  have p1: "prefix (trace s) (trace ?r)"
    using recover_action_frame(4) [of ?d e k] by (simp add: d)
  have p2: "prefix (trace ?r) (trace (lost_action e k ?r))"
    by (rule lost_action_frame)
  have e1: "new_events s ?r = new_events s (recover_action e k s)"
  proof -
    have "new_events s ?r = new_events ?d ?r" by (simp add: new_events_def d)
    also have "\<dots> = new_events s (recover_action e k s)"
      by (rule recover_action_events_entry) (simp add: d)
    finally show ?thesis .
  qed
  have "ec_slave ?r k = ec_slave (recover_action e k s) k"
    by (simp add: recover_action_frame d)
  then have e2: "new_events ?r (lost_action e k ?r)
      = new_events (recover_action e k s) (lost_action e k (recover_action e k s))"
    by (rule lost_action_events_entry)
  show ?thesis
    using True new_events_append [OF p1 p2] by (simp add: c e1 e2)
qed

lemma check_slave_events_entry:
  assumes "ec_slave t k = ec_slave s k"
  shows "new_events t (check_slave e k t) = new_events s (check_slave e k s)"
proof -
  have "ec_slave (recover_action e k t) k = ec_slave (recover_action e k s) k"
    using assms by (simp add: recover_action_frame)
  then have "new_events (recover_action e k t) (lost_action e k (recover_action e k t))
      = new_events (recover_action e k s) (lost_action e k (recover_action e k s))"
    by (rule lost_action_events_entry)
  then show ?thesis
    using assms recover_action_events_entry [OF assms, of e] lost_action_events_entry [OF assms, of e]
    by (simp add: check_slave_events)
qed

lemma fold_check_slave_events:
  "distinct ks \<Longrightarrow>
   new_events s (fold (check_slave e) ks s) = concat (map (\<lambda>k. new_events s (check_slave e k s)) ks)"
proof (induction ks arbitrary: s)
  case Nil
  then show ?case by (simp add: new_events_def)
next
  case (Cons k ks)
  let ?t = "check_slave e k s"
  have d: "distinct ks" "k \<notin> set ks" using Cons.prems by simp_all
  have same: "\<And>k'. k' \<in> set ks \<Longrightarrow>
      new_events ?t (check_slave e k' ?t) = new_events s (check_slave e k' s)"
  proof -
    fix k' assume "k' \<in> set ks"
    then have "k' \<noteq> k" using d(2) by auto
    then have "ec_slave ?t k' = ec_slave s k'" by (simp add: check_slave_entry)
    then show "new_events ?t (check_slave e k' ?t) = new_events s (check_slave e k' s)"
      by (rule check_slave_events_entry)
  qed
  have "new_events s (fold (check_slave e) ks ?t) =
      new_events s ?t @ new_events ?t (fold (check_slave e) ks ?t)"
    using fold_check_slave [OF d(1), of e ?t]
    by (intro new_events_append check_slave_prefix) simp
  also have "new_events ?t (fold (check_slave e) ks ?t)
      = concat (map (\<lambda>k'. new_events ?t (check_slave e k' ?t)) ks)"
    by (rule Cons.IH [OF d(1)])
  also have "map (\<lambda>k'. new_events ?t (check_slave e k' ?t)) ks
      = map (\<lambda>k'. new_events s (check_slave e k' s)) ks"
    by (rule map_cong) (simp_all add: same)
  finally show ?case by simp
qed


lemma sweep_events:
  "new_events s (sweep e s) =
     (if needlf s then [Printf M_newline] else []) @ [Ec_readstate]
     @ concat (map (\<lambda>k. new_events (ec_readstate (rs_state e) (rs_ALstatuscode e) s)
                        (check_slave e k (ec_readstate (rs_state e) (rs_ALstatuscode e) s)))
                [1..<Suc (ec_slavecount s)])
     @ (if \<exists>k\<in>{1..ec_slavecount s}. needs_check (refreshed e k (ec_slave s k)) then []
        else [Printf M_OK_all_resumed])"
proof -
  define R where "R = ec_readstate (rs_state e) (rs_ALstatuscode e) s"
  define s3 where "s3 = ec_readstate (rs_state e) (rs_ALstatuscode e)
     (set_docheckstate False (if needlf s then printf M_newline (s\<lparr>needlf := False\<rparr>) else s))"
  define s4 where "s4 = fold (check_slave e) [1..<Suc (ec_slavecount s)] s3"
  have s3: "ec_slavecount s3 = ec_slavecount s" "ec_slave s3 = ec_slave R"
    "trace s3 = trace s @ (if needlf s then [Printf M_newline] else []) @ [Ec_readstate]"
    by (auto simp: s3_def R_def step_defs stack_defs)
  have sw: "sweep e s =
      (if \<not> docheckstate (ec_group s4 (unat currentgroup)) then printf M_OK_all_resumed s4 else s4)"
    unfolding sweep_def Let_def s4_def s3_def [symmetric] s3(1) ..
  have d: "distinct [1..<Suc (ec_slavecount s)]" by simp
  have p3: "prefix (trace s) (trace s3)" by (simp add: s3)
  have p34: "prefix (trace s3) (trace s4)"
    using fold_check_slave [OF d, of e s3] by (simp add: s4_def)
  have p4: "prefix (trace s) (trace s4)" using p3 p34 by (rule prefix_order.trans)
  have dc: "docheckstate (ec_group s4 (unat currentgroup))
      = (\<exists>k\<in>{1..ec_slavecount s}. needs_check (refreshed e k (ec_slave s k)))"
  proof -
    have "ec_group s4 = ec_group (sweep e s)" by (simp add: sw step_defs)
    then show ?thesis by (simp add: sweep_frame(3))
  qed
  have e34: "new_events s3 s4 =
      concat (map (\<lambda>k. new_events R (check_slave e k R)) [1..<Suc (ec_slavecount s)])"
  proof -
    have "new_events s3 s4 =
        concat (map (\<lambda>k. new_events s3 (check_slave e k s3)) [1..<Suc (ec_slavecount s)])"
      unfolding s4_def by (rule fold_check_slave_events [OF d])
    also have "map (\<lambda>k. new_events s3 (check_slave e k s3)) [1..<Suc (ec_slavecount s)]
        = map (\<lambda>k. new_events R (check_slave e k R)) [1..<Suc (ec_slavecount s)]"
      by (rule map_cong [OF refl], rule check_slave_events_entry) (simp add: s3)
    finally show ?thesis .
  qed
  have e3: "new_events s s3 = (if needlf s then [Printf M_newline] else []) @ [Ec_readstate]"
    by (simp add: new_events_def s3)
  have e4: "new_events s4 (sweep e s) =
      (if \<not> docheckstate (ec_group s4 (unat currentgroup)) then [Printf M_OK_all_resumed] else [])"
    by (simp add: sw step_defs new_events_def)
  have "new_events s (sweep e s) = new_events s s4 @ new_events s4 (sweep e s)"
    using p4 by (rule new_events_append) (simp add: sw step_defs)
  also have "new_events s s4 = new_events s s3 @ new_events s3 s4"
    using p3 p34 by (rule new_events_append)
  finally show ?thesis
    unfolding e3 e4 e34 dc R_def by simp
qed

section \<open>The wake condition of the supervisor\<close>

text \<open>
  Claim C6. An iteration of the supervisor runs the sweep exactly when \<open>inOP\<close> is set
  and, in addition, \<open>wkc\<close> is below \<open>expectedWKC\<close> or the group's \<open>docheckstate\<close> is set;
  then it reads the device states. In every other state the iteration only sleeps: the
  state is unchanged but for the sleep in the trace, so there is no read of a device, no
  write of a state and no output.
\<close>

theorem supervisor_wake_condition:
  "(wake s \<longleftrightarrow>
      inOP s \<and> (wkc s < expectedWKC s \<or> docheckstate (ec_group s (unat currentgroup))))
   \<and> (wake s \<longrightarrow>
        ecatcheck_iteration e s = osal_usleep 10000 (sweep e s)
        \<and> Ec_readstate \<in> set (new_events s (ecatcheck_iteration e s)))
   \<and> (\<not> wake s \<longrightarrow>
        ecatcheck_iteration e s = s\<lparr>trace := trace s @ [Osal_usleep 10000]\<rparr>
        \<and> new_events s (ecatcheck_iteration e s) = [Osal_usleep 10000])"
proof -
  have a: "wake s \<longleftrightarrow>
      inOP s \<and> (wkc s < expectedWKC s \<or> docheckstate (ec_group s (unat currentgroup)))"
    by (simp add: wake_def)
  have b: "Ec_readstate \<in> set (new_events s (ecatcheck_iteration e s))" if w: "wake s"
  proof -
    have "new_events s (osal_usleep 10000 (sweep e s)) =
        new_events s (sweep e s) @ new_events (sweep e s) (osal_usleep 10000 (sweep e s))"
      by (rule new_events_append) (simp_all add: sweep_frame step_defs)
    then show ?thesis
      using w sweep_frame(5) [of s e] by (simp add: ecatcheck_iteration_def)
  qed
  have c: "\<not> wake s \<longrightarrow>
        ecatcheck_iteration e s = s\<lparr>trace := trace s @ [Osal_usleep 10000]\<rparr>
        \<and> new_events s (ecatcheck_iteration e s) = [Osal_usleep 10000]"
    by (simp add: ecatcheck_iteration_def step_defs new_events_def)
  have d: "wake s \<longrightarrow> ecatcheck_iteration e s = osal_usleep 10000 (sweep e s)"
    by (simp add: ecatcheck_iteration_def)
  from a b c d show ?thesis by blast
qed

theorem supervisor_wake_condition_witness:
  "wake (one_device 0x04 False\<lparr>inOP := True, wkc := 0, expectedWKC := 3\<rparr>)
   \<and> Ec_readstate \<in> set (new_events (one_device 0x04 False\<lparr>inOP := True, wkc := 0, expectedWKC := 3\<rparr>)
        (ecatcheck_iteration example_chk_env
          (one_device 0x04 False\<lparr>inOP := True, wkc := 0, expectedWKC := 3\<rparr>)))
   \<and> \<not> wake (one_device 0x04 False\<lparr>inOP := False, wkc := 0, expectedWKC := 3\<rparr>)
   \<and> new_events (one_device 0x04 False\<lparr>inOP := False, wkc := 0, expectedWKC := 3\<rparr>)
        (ecatcheck_iteration example_chk_env
          (one_device 0x04 False\<lparr>inOP := False, wkc := 0, expectedWKC := 3\<rparr>))
       = [Osal_usleep 10000]"
proof -
  have a: "wake (one_device 0x04 False\<lparr>inOP := True, wkc := 0, expectedWKC := 3\<rparr>)"
    by (simp add: wake_def)
  have b: "\<not> wake (one_device 0x04 False\<lparr>inOP := False, wkc := 0, expectedWKC := 3\<rparr>)"
    by (simp add: wake_def)
  show ?thesis
    using a b
      supervisor_wake_condition [of "one_device 0x04 False\<lparr>inOP := True, wkc := 0, expectedWKC := 3\<rparr>" example_chk_env]
      supervisor_wake_condition [of "one_device 0x04 False\<lparr>inOP := False, wkc := 0, expectedWKC := 3\<rparr>" example_chk_env]
    by blast
qed

section \<open>The recovery action for one device\<close>

text \<open>
  Claim C7. A sweep, after the optional line feed, reads the device states and then
  runs the body of the loop for the devices \<open>1 .. ec_slavecount\<close> in order, each on the
  entry \<open>ec_readstate\<close> just refreshed: its events are those of the bodies one after the
  other, each device's entry afterwards is what the body made of the refreshed entry,
  and \<open>docheckstate\<close> ends set exactly when some device of the group was read below
  operational. The body, at any state \<open>s\<close> and so at the refreshed one, is the
  \<open>else if\<close> chain, run for a device of the group that is not operational, followed
  for every device by the block for lost devices. The chain makes one call on the
  device, chosen by priority, and none when the state is none and the device is already
  marked lost: safe-operational plus error requests the acknowledge; safe-operational
  requests the operational state; any other state above none reconfigures the device
  and clears its lost flag on success; state none, not yet lost, waits for the state
  again and marks the device lost if the state is still none. After that a lost device
  whose state is none gets a recovery attempt, which clears the flag on success, and a
  lost device whose state is not none has the flag cleared.
\<close>

theorem recovery_action_priority:
  "new_events s (check_slave e k s) =
     (if group (ec_slave s k) = currentgroup \<and> state (ec_slave s k) \<noteq> EC_STATE_OPERATIONAL
      then new_events s (recover_action e k s)
        @ new_events (recover_action e k s) (lost_action e k (recover_action e k s))
      else new_events s (lost_action e k s))
   \<and> ec_slave (check_slave e k s) k =
     (if group (ec_slave s k) = currentgroup \<and> state (ec_slave s k) \<noteq> EC_STATE_OPERATIONAL
      then ec_slave (lost_action e k (recover_action e k s)) k
      else ec_slave (lost_action e k s) k)
   \<and> length (filter is_device_call (new_events s (recover_action e k s)))
       = (if state (ec_slave s k) = EC_STATE_NONE \<and> islost (ec_slave s k) then 0 else 1)
   \<and> (state (ec_slave s k) = EC_STATE_SAFE_OP + EC_STATE_ERROR \<longrightarrow>
        new_events s (recover_action e k s) =
          [Printf (M_ERROR_attempting_ack k), Ec_writestate k (EC_STATE_SAFE_OP + EC_STATE_ACK)]
        \<and> islost (ec_slave (recover_action e k s) k) = islost (ec_slave s k))
   \<and> (state (ec_slave s k) = EC_STATE_SAFE_OP \<longrightarrow>
        new_events s (recover_action e k s) =
          [Printf (M_WARNING_change_to_OPERATIONAL k), Ec_writestate k EC_STATE_OPERATIONAL]
        \<and> islost (ec_slave (recover_action e k s) k) = islost (ec_slave s k))
   \<and> (state (ec_slave s k) \<noteq> EC_STATE_SAFE_OP + EC_STATE_ERROR
        \<and> state (ec_slave s k) \<noteq> EC_STATE_SAFE_OP
        \<and> state (ec_slave s k) \<noteq> EC_STATE_NONE \<longrightarrow>
        new_events s (recover_action e k s) =
          Ec_reconfig_slave k EC_TIMEOUTMON #
            (if reconfig_ret e k \<noteq> 0 then [Printf (M_MESSAGE_reconfigured k)] else [])
        \<and> islost (ec_slave (recover_action e k s) k)
            = (islost (ec_slave s k) \<and> reconfig_ret e k = 0))
   \<and> (state (ec_slave s k) = EC_STATE_NONE \<and> \<not> islost (ec_slave s k) \<longrightarrow>
        new_events s (recover_action e k s) =
          Ec_statecheck k EC_STATE_OPERATIONAL #
            (if sc_state e k = EC_STATE_NONE then [Printf (M_ERROR_lost k)] else [])
        \<and> islost (ec_slave (recover_action e k s) k) = (sc_state e k = EC_STATE_NONE))
   \<and> (state (ec_slave s k) = EC_STATE_NONE \<and> islost (ec_slave s k) \<longrightarrow>
        recover_action e k s = s)
   \<and> (islost (ec_slave s k) \<and> state (ec_slave s k) = EC_STATE_NONE \<longrightarrow>
        new_events s (lost_action e k s) =
          Ec_recover_slave k EC_TIMEOUTMON #
            (if recover_ret e k \<noteq> 0 then [Printf (M_MESSAGE_recovered k)] else [])
        \<and> islost (ec_slave (lost_action e k s) k) = (recover_ret e k = 0))
   \<and> (islost (ec_slave s k) \<and> state (ec_slave s k) \<noteq> EC_STATE_NONE \<longrightarrow>
        new_events s (lost_action e k s) = [Printf (M_MESSAGE_found k)]
        \<and> \<not> islost (ec_slave (lost_action e k s) k))
   \<and> (\<not> islost (ec_slave s k) \<longrightarrow> lost_action e k s = s)
   \<and> new_events s0 (sweep e s0) =
       (if needlf s0 then [Printf M_newline] else []) @ [Ec_readstate]
       @ concat (map (\<lambda>d. new_events (ec_readstate (rs_state e) (rs_ALstatuscode e) s0)
                          (check_slave e d (ec_readstate (rs_state e) (rs_ALstatuscode e) s0)))
                  [1..<Suc (ec_slavecount s0)])
       @ (if \<exists>d\<in>{1..ec_slavecount s0}. group (ec_slave s0 d) = currentgroup
                \<and> rs_state e d \<noteq> EC_STATE_OPERATIONAL
          then [] else [Printf M_OK_all_resumed])
   \<and> (\<forall>d\<in>{1..ec_slavecount s0}.
        ec_slave (sweep e s0) d
          = ec_slave (check_slave e d (ec_readstate (rs_state e) (rs_ALstatuscode e) s0)) d
        \<and> state (ec_slave (ec_readstate (rs_state e) (rs_ALstatuscode e) s0) d) = rs_state e d
        \<and> group (ec_slave (ec_readstate (rs_state e) (rs_ALstatuscode e) s0) d)
            = group (ec_slave s0 d)
        \<and> islost (ec_slave (ec_readstate (rs_state e) (rs_ALstatuscode e) s0) d)
            = islost (ec_slave s0 d))
   \<and> docheckstate (ec_group (sweep e s0) (unat currentgroup))
       = (\<exists>d\<in>{1..ec_slavecount s0}. group (ec_slave s0 d) = currentgroup
             \<and> rs_state e d \<noteq> EC_STATE_OPERATIONAL)"
proof -
  have a: "new_events s (check_slave e k s) =
     (if group (ec_slave s k) = currentgroup \<and> state (ec_slave s k) \<noteq> EC_STATE_OPERATIONAL
      then new_events s (recover_action e k s)
        @ new_events (recover_action e k s) (lost_action e k (recover_action e k s))
      else new_events s (lost_action e k s))"
    using check_slave_events [of s e k] by (simp add: needs_check_def)
  have a': "ec_slave (check_slave e k s) k =
     (if group (ec_slave s k) = currentgroup \<and> state (ec_slave s k) \<noteq> EC_STATE_OPERATIONAL
      then ec_slave (lost_action e k (recover_action e k s)) k
      else ec_slave (lost_action e k s) k)"
    by (simp add: check_slave_entry entry_after_def needs_check_def lost_action_frame
        recover_action_frame)
  have b: "length (filter is_device_call (new_events s (recover_action e k s)))
       = (if state (ec_slave s k) = EC_STATE_NONE \<and> islost (ec_slave s k) then 0 else 1)"
    by (simp add: recover_action_def Let_def step_defs stack_defs chk_defs new_events_def
        state_defs word_gt_0)
  have c: "state (ec_slave s k) = EC_STATE_SAFE_OP + EC_STATE_ERROR \<longrightarrow>
        new_events s (recover_action e k s) =
          [Printf (M_ERROR_attempting_ack k), Ec_writestate k (EC_STATE_SAFE_OP + EC_STATE_ACK)]
        \<and> islost (ec_slave (recover_action e k s) k) = islost (ec_slave s k)"
    by (simp add: recover_action_def Let_def step_defs stack_defs new_events_def)
  have d: "state (ec_slave s k) = EC_STATE_SAFE_OP \<longrightarrow>
        new_events s (recover_action e k s) =
          [Printf (M_WARNING_change_to_OPERATIONAL k), Ec_writestate k EC_STATE_OPERATIONAL]
        \<and> islost (ec_slave (recover_action e k s) k) = islost (ec_slave s k)"
    by (simp add: recover_action_def Let_def step_defs stack_defs new_events_def state_defs)
  have f: "state (ec_slave s k) \<noteq> EC_STATE_SAFE_OP + EC_STATE_ERROR
        \<and> state (ec_slave s k) \<noteq> EC_STATE_SAFE_OP
        \<and> state (ec_slave s k) \<noteq> EC_STATE_NONE \<longrightarrow>
        new_events s (recover_action e k s) =
          Ec_reconfig_slave k EC_TIMEOUTMON #
            (if reconfig_ret e k \<noteq> 0 then [Printf (M_MESSAGE_reconfigured k)] else [])
        \<and> islost (ec_slave (recover_action e k s) k)
            = (islost (ec_slave s k) \<and> reconfig_ret e k = 0)"
    by (simp add: recover_action_def Let_def step_defs stack_defs chk_defs new_events_def
        EC_STATE_NONE_def word_gt_0)
  have g: "state (ec_slave s k) = EC_STATE_NONE \<and> \<not> islost (ec_slave s k) \<longrightarrow>
        new_events s (recover_action e k s) =
          Ec_statecheck k EC_STATE_OPERATIONAL #
            (if sc_state e k = EC_STATE_NONE then [Printf (M_ERROR_lost k)] else [])
        \<and> islost (ec_slave (recover_action e k s) k) = (sc_state e k = EC_STATE_NONE)"
    by (simp add: recover_action_def Let_def step_defs stack_defs new_events_def state_defs)
  have h: "state (ec_slave s k) = EC_STATE_NONE \<and> islost (ec_slave s k) \<longrightarrow>
        recover_action e k s = s"
    by (simp add: recover_action_def state_defs)
  have i: "islost (ec_slave s k) \<and> state (ec_slave s k) = EC_STATE_NONE \<longrightarrow>
        new_events s (lost_action e k s) =
          Ec_recover_slave k EC_TIMEOUTMON #
            (if recover_ret e k \<noteq> 0 then [Printf (M_MESSAGE_recovered k)] else [])
        \<and> islost (ec_slave (lost_action e k s) k) = (recover_ret e k = 0)"
    by (simp add: lost_action_def Let_def step_defs stack_defs chk_defs new_events_def)
  have j: "islost (ec_slave s k) \<and> state (ec_slave s k) \<noteq> EC_STATE_NONE \<longrightarrow>
        new_events s (lost_action e k s) = [Printf (M_MESSAGE_found k)]
        \<and> \<not> islost (ec_slave (lost_action e k s) k)"
    by (simp add: lost_action_def Let_def step_defs stack_defs new_events_def)
  have l: "\<not> islost (ec_slave s k) \<longrightarrow> lost_action e k s = s"
    by (simp add: lost_action_def)
  have nc: "\<And>d. needs_check (refreshed e d (ec_slave s0 d))
      \<longleftrightarrow> group (ec_slave s0 d) = currentgroup \<and> rs_state e d \<noteq> EC_STATE_OPERATIONAL"
    by (simp add: needs_check_def refreshed_def)
  have m: "new_events s0 (sweep e s0) =
       (if needlf s0 then [Printf M_newline] else []) @ [Ec_readstate]
       @ concat (map (\<lambda>d. new_events (ec_readstate (rs_state e) (rs_ALstatuscode e) s0)
                          (check_slave e d (ec_readstate (rs_state e) (rs_ALstatuscode e) s0)))
                  [1..<Suc (ec_slavecount s0)])
       @ (if \<exists>d\<in>{1..ec_slavecount s0}. group (ec_slave s0 d) = currentgroup
                \<and> rs_state e d \<noteq> EC_STATE_OPERATIONAL
          then [] else [Printf M_OK_all_resumed])"
    using sweep_events [of s0 e] unfolding nc .
  have n: "\<forall>d\<in>{1..ec_slavecount s0}.
        ec_slave (sweep e s0) d
          = ec_slave (check_slave e d (ec_readstate (rs_state e) (rs_ALstatuscode e) s0)) d
        \<and> state (ec_slave (ec_readstate (rs_state e) (rs_ALstatuscode e) s0) d) = rs_state e d
        \<and> group (ec_slave (ec_readstate (rs_state e) (rs_ALstatuscode e) s0) d)
            = group (ec_slave s0 d)
        \<and> islost (ec_slave (ec_readstate (rs_state e) (rs_ALstatuscode e) s0) d)
            = islost (ec_slave s0 d)"
    by (simp add: sweep_frame check_slave_entry ec_readstate_def emit_def refreshed_def)
  have o: "docheckstate (ec_group (sweep e s0) (unat currentgroup))
       = (\<exists>d\<in>{1..ec_slavecount s0}. group (ec_slave s0 d) = currentgroup
             \<and> rs_state e d \<noteq> EC_STATE_OPERATIONAL)"
    by (simp add: sweep_frame nc)
  from a a' b c d f g h i j l m n o show ?thesis by blast
qed



theorem recovery_action_priority_witness:
  "state (ec_slave (one_device 0x14 False) 1) = EC_STATE_SAFE_OP + EC_STATE_ERROR
   \<and> new_events (one_device 0x14 False) (recover_action example_chk_env 1 (one_device 0x14 False))
       = [Printf (M_ERROR_attempting_ack 1), Ec_writestate 1 (EC_STATE_SAFE_OP + EC_STATE_ACK)]
   \<and> islost (ec_slave (one_device 0 True) 1)
   \<and> state (ec_slave (one_device 0 True) 1) = EC_STATE_NONE
   \<and> recover_action example_chk_env 1 (one_device 0 True) = one_device 0 True
   \<and> new_events (one_device 0 True) (lost_action example_chk_env 1 (one_device 0 True))
       = [Ec_recover_slave 1 EC_TIMEOUTMON, Printf (M_MESSAGE_recovered 1)]
   \<and> new_events (one_device 0x14 False) (sweep example_chk_env (one_device 0x14 False))
       = [Ec_readstate, Printf (M_WARNING_change_to_OPERATIONAL 1),
          Ec_writestate 1 EC_STATE_OPERATIONAL]
   \<and> docheckstate (ec_group (sweep example_chk_env (one_device 0x14 False)) (unat currentgroup))"
proof -
  define R where "R = ec_readstate (rs_state example_chk_env) (rs_ALstatuscode example_chk_env)
      (one_device 0x14 False)"
  have a: "state (ec_slave (one_device 0x14 False) 1) = EC_STATE_SAFE_OP + EC_STATE_ERROR"
    by (simp add: one_device_def state_defs)
  have b: "islost (ec_slave (one_device 0 True) 1) \<and> state (ec_slave (one_device 0 True) 1) = EC_STATE_NONE"
    by (simp add: one_device_def state_defs)
  have r: "recover_ret example_chk_env 1 \<noteq> 0"
    by (simp add: example_chk_env_def)
  have v: "needlf (one_device 0x14 False) = False" "ec_slavecount (one_device 0x14 False) = 1"
    "group (ec_slave (one_device 0x14 False) 1) = currentgroup"
    "rs_state example_chk_env 1 \<noteq> EC_STATE_OPERATIONAL"
    by (simp_all add: one_device_def initial_globals_def currentgroup_def example_chk_env_def
        state_defs)
  have R: "state (ec_slave R 1) = EC_STATE_SAFE_OP" "\<not> islost (ec_slave R 1)"
    "group (ec_slave R 1) = currentgroup" "EC_STATE_SAFE_OP \<noteq> EC_STATE_OPERATIONAL"
    by (simp_all add: R_def ec_readstate_def emit_def one_device_def example_chk_env_def
        currentgroup_def state_defs)
  have ra: "new_events R (recover_action example_chk_env 1 R) =
      [Printf (M_WARNING_change_to_OPERATIONAL 1), Ec_writestate 1 EC_STATE_OPERATIONAL]"
    "\<not> islost (ec_slave (recover_action example_chk_env 1 R) 1)"
    using R recovery_action_priority [of R example_chk_env 1] by simp_all
  have la: "lost_action example_chk_env 1 (recover_action example_chk_env 1 R)
      = recover_action example_chk_env 1 R"
    using ra(2) recovery_action_priority [of "recover_action example_chk_env 1 R" example_chk_env 1]
    by blast
  have cs: "new_events R (check_slave example_chk_env 1 R) =
      [Printf (M_WARNING_change_to_OPERATIONAL 1), Ec_writestate 1 EC_STATE_OPERATIONAL]"
    using R ra la recovery_action_priority [of R example_chk_env 1]
    by (simp add: new_events_self)
  have sw: "new_events (one_device 0x14 False) (sweep example_chk_env (one_device 0x14 False))
       = [Ec_readstate, Printf (M_WARNING_change_to_OPERATIONAL 1),
          Ec_writestate 1 EC_STATE_OPERATIONAL]
     \<and> docheckstate (ec_group (sweep example_chk_env (one_device 0x14 False)) (unat currentgroup))"
  proof -
    let ?s = "one_device 0x14 False"
    have "new_events ?s (sweep example_chk_env ?s) =
       (if needlf ?s then [Printf M_newline] else []) @ [Ec_readstate]
       @ concat (map (\<lambda>d. new_events R (check_slave example_chk_env d R))
                  [1..<Suc (ec_slavecount ?s)])
       @ (if \<exists>d\<in>{1..ec_slavecount ?s}. group (ec_slave ?s d) = currentgroup
                \<and> rs_state example_chk_env d \<noteq> EC_STATE_OPERATIONAL
          then [] else [Printf M_OK_all_resumed])"
      "docheckstate (ec_group (sweep example_chk_env ?s) (unat currentgroup))
       = (\<exists>d\<in>{1..ec_slavecount ?s}. group (ec_slave ?s d) = currentgroup
             \<and> rs_state example_chk_env d \<noteq> EC_STATE_OPERATIONAL)"
      using recovery_action_priority [of ?s example_chk_env 1 ?s] unfolding R_def by blast+
    then show ?thesis
      using v cs by simp
  qed
  have p1: "new_events (one_device 0x14 False)
        (recover_action example_chk_env 1 (one_device 0x14 False))
       = [Printf (M_ERROR_attempting_ack 1), Ec_writestate 1 (EC_STATE_SAFE_OP + EC_STATE_ACK)]"
    using a recovery_action_priority [of "one_device 0x14 False" example_chk_env 1 "one_device 0x14 False"]
    by blast
  have p2: "recover_action example_chk_env 1 (one_device 0 True) = one_device 0 True"
    using b recovery_action_priority [of "one_device 0 True" example_chk_env 1 "one_device 0 True"]
    by blast
  have "new_events (one_device 0 True) (lost_action example_chk_env 1 (one_device 0 True))
       = Ec_recover_slave 1 EC_TIMEOUTMON #
          (if recover_ret example_chk_env 1 \<noteq> 0 then [Printf (M_MESSAGE_recovered 1)] else [])"
    using b recovery_action_priority [of "one_device 0 True" example_chk_env 1 "one_device 0 True"]
    by blast
  then have p3: "new_events (one_device 0 True) (lost_action example_chk_env 1 (one_device 0 True))
       = [Ec_recover_slave 1 EC_TIMEOUTMON, Printf (M_MESSAGE_recovered 1)]"
    using r by simp
  show ?thesis
    using a b p1 p2 p3 sw by blast
qed

section \<open>Sweeping twice\<close>

text \<open>
  Claim C8. Two sweeps in succession, the stack answering the second as it answered the
  first: the lost flag of every device and the group's \<open>docheckstate\<close> are the same
  after the second sweep as after the first; when the reported link states did not
  change during the sweeps (\<open>stable\<close>), the whole device table and the group table are
  the same. The second sweep requests a state only for a device that \<open>ec_readstate\<close>
  just found below operational and still in the state the request starts from
  (safe-operational plus error for the acknowledge, safe-operational for the promotion):
  a request that was satisfied is not sent again.
\<close>

theorem sweep_idempotent:
  "(\<forall>k. islost (ec_slave (sweep e (sweep e s)) k) = islost (ec_slave (sweep e s) k))
   \<and> docheckstate (ec_group (sweep e (sweep e s)) (unat currentgroup))
       = docheckstate (ec_group (sweep e s) (unat currentgroup))
   \<and> (stable e \<longrightarrow>
        ec_slave (sweep e (sweep e s)) = ec_slave (sweep e s)
        \<and> ec_group (sweep e (sweep e s)) = ec_group (sweep e s))
   \<and> (\<forall>k q. Ec_writestate k q \<in> set (new_events (sweep e s) (sweep e (sweep e s))) \<longrightarrow>
        rs_state e k \<noteq> EC_STATE_OPERATIONAL
        \<and> ((rs_state e k = EC_STATE_SAFE_OP + EC_STATE_ERROR \<and> q = EC_STATE_SAFE_OP + EC_STATE_ACK)
           \<or> (rs_state e k = EC_STATE_SAFE_OP \<and> q = EC_STATE_OPERATIONAL)))"
proof -
  let ?r = "\<lambda>k. refreshed e k (ec_slave s k)"
  have again: "\<And>k. refreshed e k (entry_after e k (?r k))
      = (?r k)\<lparr>islost := islost (entry_after e k (?r k))\<rparr>"
  proof -
    fix k
    show "refreshed e k (entry_after e k (?r k))
      = (?r k)\<lparr>islost := islost (entry_after e k (?r k))\<rparr>"
      using entry_after_reread [where e = e and k = k and r = "?r k"] by (simp add: refreshed_def)
  qed
  have zero: "refreshed e 0 (refreshed e 0 (ec_slave s 0)) = refreshed e 0 (ec_slave s 0)"
    by (simp add: refreshed_def)
  have nc: "\<And>k b. needs_check ((?r k)\<lparr>islost := b\<rparr>) = needs_check (?r k)"
    by (simp add: needs_check_def)
  have a: "\<forall>k. islost (ec_slave (sweep e (sweep e s)) k) = islost (ec_slave (sweep e s) k)"
    by (simp add: sweep_frame again zero entry_after_islost_idem)
  have g: "ec_group (sweep e (sweep e s)) = ec_group (sweep e s)"
    by (simp add: sweep_frame again nc fun_eq_iff)
  have c: "ec_slave (sweep e (sweep e s)) = ec_slave (sweep e s)" if "stable e"
  proof -
    have "\<And>k. entry_after e k ((?r k)\<lparr>islost := islost (entry_after e k (?r k))\<rparr>)
        = entry_after e k (?r k)"
      by (rule entry_after_idem [OF that]) (simp add: refreshed_def)
    then show ?thesis
      by (simp add: sweep_frame again zero fun_eq_iff)
  qed
  have d: "\<forall>k q. Ec_writestate k q \<in> set (new_events (sweep e s) (sweep e (sweep e s))) \<longrightarrow>
        rs_state e k \<noteq> EC_STATE_OPERATIONAL
        \<and> ((rs_state e k = EC_STATE_SAFE_OP + EC_STATE_ERROR \<and> q = EC_STATE_SAFE_OP + EC_STATE_ACK)
           \<or> (rs_state e k = EC_STATE_SAFE_OP \<and> q = EC_STATE_OPERATIONAL))"
    using sweep_frame(6) [of _ _ "sweep e s" e] by blast
  from a g c d show ?thesis by simp
qed


theorem sweep_idempotent_witness:
  "stable example_chk_env
   \<and> ec_slave (sweep example_chk_env (sweep example_chk_env (one_device 0 True)))
       = ec_slave (sweep example_chk_env (one_device 0 True))
   \<and> ec_group (sweep example_chk_env (sweep example_chk_env (one_device 0 True)))
       = ec_group (sweep example_chk_env (one_device 0 True))"
proof -
  have h: "stable example_chk_env"
    by (simp add: stable_def example_chk_env_def)
  show ?thesis
    using h sweep_idempotent [of example_chk_env "one_device 0 True"] by blast
qed

section \<open>The readiness flag after the control phase\<close>







end
